theory Spec2Isabelle
  imports
    Main
    "HOL-Library.Char_ord"
    "HOL-Library.List_Lexorder"
    "HOL-Library.Product_Lexorder"
begin

section \<open>AssignFlow: the task ledger, the tool dispatcher and the assistant session\<close>

text \<open>
  A shallow embedding of \<^verbatim>\<open>src/assignflow.py\<close>: the three tables that
  \<^verbatim>\<open>DatabaseManager.init_db\<close> creates, the methods of \<^verbatim>\<open>DatabaseManager\<close>
  as functions from a database state to a result and a new state, the tool dispatcher
  \<^verbatim>\<open>AIChatWidget._execute_tool\<close> and the assistant session: the main thread
  (\<^verbatim>\<open>send_message\<close>, \<^verbatim>\<open>cancel_generation\<close>) and the threads that run
  \<^verbatim>\<open>_call_deepseek_api\<close>, interleaved step by step.
\<close>

subsection \<open>Exceptions\<close>

text \<open>
  A Python exception is a value: a function that can raise returns \<open>pyexc + 'a\<close>, with
  \<open>Inl\<close> for the exception. Every database method runs inside
  \<^verbatim>\<open>with self.get_connection() as conn\<close>, which commits when the block ends and rolls
  back and re-raises when it raises: \<open>Inl e\<close> from a database method therefore means
  that the database is the one the method started from.
\<close>

datatype pyexc =
    IntegrityError
  | JSONDecodeError
  | KeyError string
  | TypeError
  | ValueError
  | OverflowError
  | AttributeError
  | APIError

subsection \<open>The tables\<close>

text \<open>
  \<^verbatim>\<open>TEXT\<close> columns are strings, \<^verbatim>\<open>INTEGER\<close> columns are integers, a nullable column
  is an option. Timestamps and dates are the text SQLite stores for them. A table is the
  list of its rows in insertion order. The field \<open>s_class\<close> is the column \<^verbatim>\<open>class\<close>.
\<close>

type_synonym timestamp = string

record student =
  s_id :: int
  s_student_id :: string
  s_name :: string
  s_class :: string
  s_created_at :: timestamp

record task =
  t_id :: int
  t_name :: string
  t_date :: string
  t_created_at :: timestamp

record task_detail =
  td_id :: int
  td_task_id :: int
  td_student_id :: string
  td_status :: string
  td_grade :: "string option"
  td_updated_at :: timestamp

text \<open>
  The three \<open>seq\<close> fields are the rows of \<^verbatim>\<open>sqlite_sequence\<close>: every table has an
  \<^verbatim>\<open>INTEGER PRIMARY KEY AUTOINCREMENT\<close>, whose next value is one more than the
  largest row id the table holds or has ever been given.
\<close>

record db =
  students :: "student list"
  tasks :: "task list"
  task_details :: "task_detail list"
  seq_students :: int
  seq_tasks :: int
  seq_task_details :: int

definition new_rowid :: "int \<Rightarrow> int list \<Rightarrow> int" where
  "new_rowid seq ids = fold max ids seq + 1"

text \<open>
  The constraints of the schema that a statement of the program can meet:
  \<^verbatim>\<open>student_id TEXT UNIQUE\<close> on \<^verbatim>\<open>students\<close> and \<^verbatim>\<open>UNIQUE(task_id, student_id)\<close> on
  \<^verbatim>\<open>task_details\<close>. SQLite keeps them in every state it reaches. The two
  \<^verbatim>\<open>FOREIGN KEY\<close> clauses of \<^verbatim>\<open>task_details\<close> are not among them: SQLite enforces
  foreign keys only after \<^verbatim>\<open>PRAGMA foreign_keys = ON\<close>, which the program never issues.
\<close>

definition td_key :: "task_detail \<Rightarrow> int \<times> string" where
  "td_key r = (td_task_id r, td_student_id r)"

definition db_inv :: "db \<Rightarrow> bool" where
  "db_inv d \<longleftrightarrow>
     distinct (map s_student_id (students d)) \<and> distinct (map td_key (task_details d))"

subsection \<open>Statements on \<^verbatim>\<open>task_details\<close>\<close>

definition td_rows :: "int \<Rightarrow> db \<Rightarrow> task_detail list" where
  "td_rows task_id d = filter (\<lambda>r. td_task_id r = task_id) (task_details d)"

definition has_td :: "int \<Rightarrow> string \<Rightarrow> db \<Rightarrow> bool" where
  "has_td task_id student_id d \<longleftrightarrow> (task_id, student_id) \<in> set (map td_key (task_details d))"

text \<open>
  \<^verbatim>\<open>INSERT INTO task_details (task_id, student_id, status) VALUES (?, ?, ?)\<close>: the grade
  is \<^verbatim>\<open>NULL\<close>, \<^verbatim>\<open>updated_at\<close> is the default \<^verbatim>\<open>CURRENT_TIMESTAMP\<close> (the argument
  \<open>now\<close>, the clock reading of the call). A second row for the same pair violates the
  \<^verbatim>\<open>UNIQUE\<close> constraint.
\<close>

definition insert_task_detail :: "timestamp \<Rightarrow> int \<times> string \<times> string \<Rightarrow> db \<Rightarrow> pyexc + db" where
  "insert_task_detail now row d =
     (case row of (task_id, student_id, status) \<Rightarrow>
        if has_td task_id student_id d then Inl IntegrityError
        else
          let rid = new_rowid (seq_task_details d) (map td_id (task_details d))
          in Inr (d\<lparr>task_details := task_details d @
                      [\<lparr>td_id = rid, td_task_id = task_id, td_student_id = student_id,
                        td_status = status, td_grade = None, td_updated_at = now\<rparr>],
                    seq_task_details := rid\<rparr>))"

text \<open>\<^verbatim>\<open>cursor.executemany\<close>: the statement once per parameter tuple, in order.\<close>

fun executemany :: "(db \<Rightarrow> pyexc + db) list \<Rightarrow> db \<Rightarrow> pyexc + db" where
  "executemany [] d = Inr d"
| "executemany (stmt # stmts) d =
     (case stmt d of Inl e \<Rightarrow> Inl e | Inr d' \<Rightarrow> executemany stmts d')"

subsection \<open>\<^verbatim>\<open>DatabaseManager.ensure_task_students\<close>\<close>

definition ensure_task_students :: "int \<Rightarrow> timestamp \<Rightarrow> db \<Rightarrow> pyexc + db" where
  "ensure_task_students task_id now d =
     (let total_students = length (students d);
          existing = length (td_rows task_id d)
      in if int existing < int total_students then
           let all_ids = map s_student_id (students d);
               existing_ids = set (map td_student_id (td_rows task_id d));
               missing_ids = filter (\<lambda>sid. sid \<notin> existing_ids) all_ids
           in if missing_ids \<noteq> [] then
                executemany
                  (map (\<lambda>sid. insert_task_detail now (task_id, sid, ''missing'')) missing_ids) d
              else Inr d
         else Inr d)"

subsection \<open>Upserts: \<^verbatim>\<open>submit_student\<close> and \<^verbatim>\<open>set_grade\<close>\<close>

text \<open>
  \<^verbatim>\<open>INSERT ... ON CONFLICT(task_id, student_id) DO UPDATE SET ...\<close>. Where a row with the
  pair exists, it is updated in place; otherwise a row is appended. SQLite draws the new
  row id before it looks for the conflict and records it in \<^verbatim>\<open>sqlite_sequence\<close> when
  the statement ends, on either path. The statement checks no foreign key (see
  \<open>db_inv\<close>), so it does not look at \<^verbatim>\<open>students\<close> or \<^verbatim>\<open>tasks\<close>.
\<close>

definition upsert_task_detail ::
    "task_detail \<Rightarrow> (task_detail \<Rightarrow> task_detail) \<Rightarrow> db \<Rightarrow> db" where
  "upsert_task_detail row on_conflict d =
     (let rid = new_rowid (seq_task_details d) (map td_id (task_details d)) in
      if has_td (td_task_id row) (td_student_id row) d then
        d\<lparr>task_details :=
             map (\<lambda>r. if td_key r = td_key row then on_conflict r else r) (task_details d),
           seq_task_details := rid\<rparr>
      else
        d\<lparr>task_details := task_details d @ [row\<lparr>td_id := rid\<rparr>],
           seq_task_details := rid\<rparr>)"

definition submit_student :: "int \<Rightarrow> string \<Rightarrow> timestamp \<Rightarrow> db \<Rightarrow> db" where
  "submit_student task_id student_id now d =
     upsert_task_detail
       \<lparr>td_id = 0, td_task_id = task_id, td_student_id = student_id,
        td_status = ''submitted'', td_grade = None, td_updated_at = now\<rparr>
       (\<lambda>r. r\<lparr>td_status := ''submitted'', td_updated_at := now\<rparr>) d"

definition set_grade :: "int \<Rightarrow> string \<Rightarrow> string option \<Rightarrow> timestamp \<Rightarrow> db \<Rightarrow> db" where
  "set_grade task_id student_id grade now d =
     upsert_task_detail
       \<lparr>td_id = 0, td_task_id = task_id, td_student_id = student_id,
        td_status = ''submitted'', td_grade = grade, td_updated_at = now\<rparr>
       (\<lambda>r. r\<lparr>td_grade := grade, td_status := ''submitted'', td_updated_at := now\<rparr>) d"

subsection \<open>\<^verbatim>\<open>delete_student\<close>\<close>

definition delete_student :: "string \<Rightarrow> db \<Rightarrow> db" where
  "delete_student student_id d =
     (let d1 = d\<lparr>task_details := filter (\<lambda>r. td_student_id r \<noteq> student_id) (task_details d)\<rparr>
      in d1\<lparr>students := filter (\<lambda>s. s_student_id s \<noteq> student_id) (students d1)\<rparr>)"

subsection \<open>Tasks\<close>

text \<open>
  The dictionary a task is handed around as: \<^verbatim>\<open>dict(row)\<close> of a row of \<^verbatim>\<open>tasks\<close>, or
  the literal \<^verbatim>\<open>{'id': ..., 'name': ..., 'date': ...}\<close> that
  \<^verbatim>\<open>get_or_create_today_task\<close> builds, which has no \<^verbatim>\<open>created_at\<close>.
\<close>

record task_dict =
  k_id :: int
  k_name :: string
  k_date :: string
  k_created_at :: "timestamp option"

definition dict_of_task :: "task \<Rightarrow> task_dict" where
  "dict_of_task t =
     \<lparr>k_id = t_id t, k_name = t_name t, k_date = t_date t, k_created_at = Some (t_created_at t)\<rparr>"

text \<open>
  The name of a created task is \<^verbatim>\<open>f"...-{today}"\<close>, whose two leading characters are
  Chinese; a string is its UTF-8 bytes.
\<close>

definition task_name_for :: "string \<Rightarrow> string" where
  "task_name_for today =
     [CHR 0xE4, CHR 0xBD, CHR 0x9C, CHR 0xE4, CHR 0xB8, CHR 0x9A] @ ''-'' @ today"

text \<open>
  \<open>today\<close> is \<^verbatim>\<open>datetime.date.today().isoformat()\<close>. \<^verbatim>\<open>fetchone\<close> on a query with no
  \<^verbatim>\<open>ORDER BY\<close> gives the first matching row in row order.
\<close>

definition get_or_create_today_task :: "string \<Rightarrow> timestamp \<Rightarrow> db \<Rightarrow> task_dict \<times> db" where
  "get_or_create_today_task today now d =
     (case filter (\<lambda>t. t_date t = today) (tasks d) of
        t # _ \<Rightarrow> (dict_of_task t, d)
      | [] \<Rightarrow>
          let task_id = new_rowid (seq_tasks d) (map t_id (tasks d))
          in (\<lparr>k_id = task_id, k_name = task_name_for today, k_date = today,
               k_created_at = None\<rparr>,
              d\<lparr>tasks := tasks d @
                   [\<lparr>t_id = task_id, t_name = task_name_for today, t_date = today,
                     t_created_at = now\<rparr>],
                 seq_tasks := task_id\<rparr>))"

text \<open>
  \<^verbatim>\<open>ORDER BY date DESC\<close>: SQL leaves the order of rows with equal dates open; the model
  keeps them in row order.
\<close>

definition order_by_date_desc :: "task list \<Rightarrow> task list" where
  "order_by_date_desc ts = rev (sort_key t_date (rev ts))"

definition get_current_task :: "string \<Rightarrow> timestamp \<Rightarrow> db \<Rightarrow> task_dict \<times> db" where
  "get_current_task today now d =
     (case order_by_date_desc (tasks d) of
        row # _ \<Rightarrow> (dict_of_task row, d)
      | [] \<Rightarrow> get_or_create_today_task today now d)"

subsection \<open>Queries on a task\<close>

record detail =
  d_student_id :: string
  d_name :: string
  d_class :: string
  d_status :: string
  d_grade :: "string option"

text \<open>
  \<^verbatim>\<open>students s LEFT JOIN task_details td ON s.student_id = td.student_id AND
  td.task_id = ?\<close>: every student once per matching row, and once with \<^verbatim>\<open>NULL\<close>s where no
  row matches.
\<close>

definition join_student :: "int \<Rightarrow> db \<Rightarrow> student \<Rightarrow> (student \<times> task_detail option) list" where
  "join_student task_id d s =
     (case filter (\<lambda>td. s_student_id s = td_student_id td \<and> td_task_id td = task_id)
             (task_details d) of
        [] \<Rightarrow> [(s, None)]
      | tds \<Rightarrow> map (\<lambda>td. (s, Some td)) tds)"

definition left_join_td :: "int \<Rightarrow> db \<Rightarrow> (student \<times> task_detail option) list" where
  "left_join_td task_id d = concat (map (join_student task_id d) (students d))"

definition by_class_id :: "student \<Rightarrow> string \<times> string" where
  "by_class_id s = (s_class s, s_student_id s)"

definition detail_of :: "student \<times> task_detail option \<Rightarrow> detail" where
  "detail_of p =
     (case p of (s, td) \<Rightarrow>
        \<lparr>d_student_id = s_student_id s, d_name = s_name s, d_class = s_class s,
         d_status = (case td of None \<Rightarrow> ''missing'' | Some r \<Rightarrow> td_status r),
         d_grade = (case td of None \<Rightarrow> None | Some r \<Rightarrow> td_grade r)\<rparr>)"

definition select_task_details :: "int \<Rightarrow> db \<Rightarrow> detail list" where
  "select_task_details task_id d =
     map detail_of (sort_key (\<lambda>p. by_class_id (fst p)) (left_join_td task_id d))"

definition get_task_details :: "int \<Rightarrow> timestamp \<Rightarrow> db \<Rightarrow> pyexc + detail list \<times> db" where
  "get_task_details task_id now d =
     (case ensure_task_students task_id now d of
        Inl e \<Rightarrow> Inl e
      | Inr d' \<Rightarrow> Inr (select_task_details task_id d', d'))"

text \<open>The three columns \<^verbatim>\<open>s.student_id, s.name, s.class\<close> of a student.\<close>

record entry =
  e_student_id :: string
  e_name :: string
  e_class :: string

definition entry_of :: "student \<Rightarrow> entry" where
  "entry_of s = \<lparr>e_student_id = s_student_id s, e_name = s_name s, e_class = s_class s\<rparr>"

definition select_submitted :: "int \<Rightarrow> db \<Rightarrow> entry list" where
  "select_submitted task_id d =
     map entry_of (sort_key by_class_id
       (concat (map (\<lambda>td. filter (\<lambda>s. td_student_id td = s_student_id s) (students d))
          (filter (\<lambda>td. td_task_id td = task_id \<and> td_status td = ''submitted'')
             (task_details d)))))"

definition get_submitted_students :: "int \<Rightarrow> timestamp \<Rightarrow> db \<Rightarrow> pyexc + entry list \<times> db" where
  "get_submitted_students task_id now d =
     (case ensure_task_students task_id now d of
        Inl e \<Rightarrow> Inl e
      | Inr d' \<Rightarrow> Inr (select_submitted task_id d', d'))"

definition is_missing :: "student \<times> task_detail option \<Rightarrow> bool" where
  "is_missing p = (case snd p of None \<Rightarrow> True | Some td \<Rightarrow> td_status td = ''missing'')"

text \<open>
  \<^verbatim>\<open>if class_name:\<close> is false for \<^verbatim>\<open>None\<close> and for the empty string. With a class the
  rows are ordered by \<^verbatim>\<open>s.student_id\<close> alone.
\<close>

definition select_missing :: "int \<Rightarrow> string option \<Rightarrow> db \<Rightarrow> entry list" where
  "select_missing task_id class_name d =
     (if class_name \<noteq> None \<and> class_name \<noteq> Some [] then
        map (entry_of \<circ> fst) (sort_key (\<lambda>p. s_student_id (fst p))
          (filter (\<lambda>p. is_missing p \<and> Some (s_class (fst p)) = class_name)
             (left_join_td task_id d)))
      else
        map (entry_of \<circ> fst) (sort_key (\<lambda>p. by_class_id (fst p))
          (filter is_missing (left_join_td task_id d))))"

definition get_missing_students ::
    "int \<Rightarrow> string option \<Rightarrow> timestamp \<Rightarrow> db \<Rightarrow> pyexc + entry list \<times> db" where
  "get_missing_students task_id class_name now d =
     (case ensure_task_students task_id now d of
        Inl e \<Rightarrow> Inl e
      | Inr d' \<Rightarrow> Inr (select_missing task_id class_name d', d'))"

subsection \<open>\<^verbatim>\<open>get_student_history\<close>\<close>

record history =
  h_task_id :: int
  h_date :: string
  h_task_name :: string
  h_status :: "string option"
  h_grade :: "string option"

text \<open>
  \<^verbatim>\<open>tasks t LEFT JOIN task_details td ON t.id = td.task_id AND td.student_id = ?\<close>: every
  task appears, with \<^verbatim>\<open>NULL\<close> status and grade where the student has no row for it.
\<close>

definition history_rows :: "string \<Rightarrow> db \<Rightarrow> task \<Rightarrow> history list" where
  "history_rows student_id d t =
     (case filter (\<lambda>td. t_id t = td_task_id td \<and> td_student_id td = student_id)
             (task_details d) of
        [] \<Rightarrow> [\<lparr>h_task_id = t_id t, h_date = t_date t, h_task_name = t_name t,
                h_status = None, h_grade = None\<rparr>]
      | tds \<Rightarrow> map (\<lambda>td. \<lparr>h_task_id = t_id t, h_date = t_date t, h_task_name = t_name t,
                h_status = Some (td_status td), h_grade = td_grade td\<rparr>) tds)"

definition get_student_history :: "string \<Rightarrow> db \<Rightarrow> history list" where
  "get_student_history student_id d =
     concat (map (history_rows student_id d) (order_by_date_desc (tasks d)))"

subsection \<open>\<^verbatim>\<open>get_today_stats\<close>\<close>

text \<open>
  \<^verbatim>\<open>get_current_task\<close> commits before \<^verbatim>\<open>get_task_details\<close> starts, so a fault of the
  second leaves what the first wrote: the state comes back beside the result.
\<close>

definition get_today_stats ::
    "string \<Rightarrow> timestamp \<Rightarrow> db \<Rightarrow> (pyexc + int \<times> int \<times> int) \<times> db" where
  "get_today_stats today now d =
     (case get_current_task today now d of (task, d1) \<Rightarrow>
        case get_task_details (k_id task) now d1 of
          Inl e \<Rightarrow> (Inl e, d1)
        | Inr (details, d2) \<Rightarrow>
            let total = int (length details);
                submitted = int (length (filter (\<lambda>x. d_status x = ''submitted'') details));
                missing = total - submitted
            in (Inr (total, submitted, missing), d2))"

subsection \<open>The roster\<close>

text \<open>
  \<^verbatim>\<open>INSERT INTO students ... ON CONFLICT(student_id) DO UPDATE SET name, class\<close>. The
  method returns \<^verbatim>\<open>cursor.lastrowid\<close>, which no caller reads and the model leaves out.
\<close>

definition add_student :: "string \<Rightarrow> string \<Rightarrow> string \<Rightarrow> timestamp \<Rightarrow> db \<Rightarrow> db" where
  "add_student student_id name cls now d =
     (let rid = new_rowid (seq_students d) (map s_id (students d)) in
      if student_id \<in> set (map s_student_id (students d)) then
        d\<lparr>students :=
             map (\<lambda>s. if s_student_id s = student_id then s\<lparr>s_name := name, s_class := cls\<rparr>
                       else s) (students d),
           seq_students := rid\<rparr>
      else
        d\<lparr>students := students d @
             [\<lparr>s_id = rid, s_student_id = student_id, s_name = name, s_class = cls,
               s_created_at = now\<rparr>],
           seq_students := rid\<rparr>)"

definition get_student :: "string \<Rightarrow> db \<Rightarrow> student option" where
  "get_student student_id d =
     (case filter (\<lambda>s. s_student_id s = student_id) (students d) of
        [] \<Rightarrow> None
      | row # _ \<Rightarrow> Some row)"

definition get_students_by_class :: "string \<Rightarrow> db \<Rightarrow> student list" where
  "get_students_by_class class_name d =
     sort_key s_student_id (filter (\<lambda>s. s_class s = class_name) (students d))"

definition get_all_classes :: "db \<Rightarrow> string list" where
  "get_all_classes d = sort (remdups (map s_class (students d)))"

definition update_student :: "string \<Rightarrow> string option \<Rightarrow> string option \<Rightarrow> db \<Rightarrow> db" where
  "update_student student_id name cls d =
     (let d1 = (case name of
                  None \<Rightarrow> d
                | Some n \<Rightarrow> d\<lparr>students :=
                    map (\<lambda>s. if s_student_id s = student_id then s\<lparr>s_name := n\<rparr> else s)
                      (students d)\<rparr>)
      in case cls of
           None \<Rightarrow> d1
         | Some c \<Rightarrow> d1\<lparr>students :=
             map (\<lambda>s. if s_student_id s = student_id then s\<lparr>s_class := c\<rparr> else s)
               (students d1)\<rparr>)"

definition get_all_tasks :: "db \<Rightarrow> task list" where
  "get_all_tasks d = order_by_date_desc (tasks d)"

subsection \<open>\<^verbatim>\<open>get_students_by_id_range\<close>\<close>

text \<open>
  The method compares \<^verbatim>\<open>CAST(student_id AS INTEGER)\<close> with \<^verbatim>\<open>int(start_id)\<close> and
  \<^verbatim>\<open>int(end_id)\<close>. Both conversions are library code, modelled here on ASCII text.

  \<^verbatim>\<open>int\<close> of a Python string: white space is stripped at both ends, a sign may follow,
  then decimal digits, which single underscores may separate; anything else raises
  \<^verbatim>\<open>ValueError\<close>. (The limit that recent Python versions put on the number of digits,
  4300 by default, is not modelled.)
\<close>

definition is_digit :: "char \<Rightarrow> bool" where
  "is_digit c \<longleftrightarrow> CHR ''0'' \<le> c \<and> c \<le> CHR ''9''"

definition digit_val :: "char \<Rightarrow> int" where
  "digit_val c = int (of_char c) - 48"

definition dec_value :: "string \<Rightarrow> int" where
  "dec_value s = foldl (\<lambda>n c. 10 * n + digit_val c) 0 s"

definition py_isspace :: "char \<Rightarrow> bool" where
  "py_isspace c \<longleftrightarrow>
     (let n = (of_char c :: nat) in (9 \<le> n \<and> n \<le> 13) \<or> (28 \<le> n \<and> n \<le> 32))"

definition py_strip :: "string \<Rightarrow> string" where
  "py_strip s = rev (dropWhile py_isspace (rev (dropWhile py_isspace s)))"

definition split_sign :: "string \<Rightarrow> bool \<times> string" where
  "split_sign s =
     (case s of
        [] \<Rightarrow> (False, [])
      | c # r \<Rightarrow> if c = CHR ''-'' then (True, r) else if c = CHR ''+'' then (False, r)
                 else (False, s))"

fun digits_us :: "string \<Rightarrow> bool" where
  "digits_us [] = True"
| "digits_us [c] = is_digit c"
| "digits_us (c # c' # cs) =
     (if is_digit c then digits_us (c' # cs)
      else c = CHR ''_'' \<and> is_digit c' \<and> digits_us (c' # cs))"

definition py_int :: "string \<Rightarrow> pyexc + int" where
  "py_int s =
     (case split_sign (py_strip s) of (neg, body) \<Rightarrow>
        if body \<noteq> [] \<and> is_digit (hd body) \<and> digits_us body then
          Inr ((if neg then - 1 else 1) * dec_value (filter is_digit body))
        else Inl ValueError)"

text \<open>
  \<^verbatim>\<open>CAST(text AS INTEGER)\<close> in SQLite: leading white space is skipped, a sign may
  follow, and the longest run of digits after it is the value, 0 when there is none; a value
  outside the 64-bit range is the nearest end of the range.
\<close>

definition sqlite_isspace :: "char \<Rightarrow> bool" where
  "sqlite_isspace c \<longleftrightarrow> (let n = (of_char c :: nat) in (9 \<le> n \<and> n \<le> 13) \<or> n = 32)"

definition int64_min :: int where
  "int64_min = - (2 ^ 63)"

definition int64_max :: int where
  "int64_max = 2 ^ 63 - 1"

definition sql_cast_integer :: "string \<Rightarrow> int" where
  "sql_cast_integer s =
     (case split_sign (dropWhile sqlite_isspace s) of (neg, rest) \<Rightarrow>
        let u = dec_value (takeWhile is_digit rest)
        in if neg then max (- u) int64_min else min u int64_max)"

text \<open>
  A Python integer bound to a parameter has to fit 64 bits, or the call raises
  \<^verbatim>\<open>OverflowError\<close>. \<^verbatim>\<open>ORDER BY student_id\<close> compares the text, byte by byte.
\<close>

definition bind_int64 :: "int \<Rightarrow> pyexc + int" where
  "bind_int64 n = (if int64_min \<le> n \<and> n \<le> int64_max then Inr n else Inl OverflowError)"

definition get_students_by_id_range :: "string \<Rightarrow> string \<Rightarrow> db \<Rightarrow> pyexc + student list" where
  "get_students_by_id_range start_id end_id d =
     (case py_int start_id of
        Inl e \<Rightarrow> Inl e
      | Inr a \<Rightarrow>
          (case py_int end_id of
             Inl e \<Rightarrow> Inl e
           | Inr b \<Rightarrow>
               (case bind_int64 a of
                  Inl e \<Rightarrow> Inl e
                | Inr lo \<Rightarrow>
                    (case bind_int64 b of
                       Inl e \<Rightarrow> Inl e
                     | Inr hi \<Rightarrow>
                         Inr (sort_key s_student_id
                           (filter (\<lambda>s. lo \<le> sql_cast_integer (s_student_id s) \<and>
                                         sql_cast_integer (s_student_id s) \<le> hi)
                              (students d)))))))"

subsection \<open>Tool calls\<close>

text \<open>
  A tool call as the stream delivers it and \<^verbatim>\<open>_call_deepseek_api\<close> assembles it: its
  index in the response, its identifier, and \<^verbatim>\<open>function.name\<close> and
  \<^verbatim>\<open>function.arguments\<close>, the latter a string that is meant to hold a JSON object.
\<close>

record tool_call =
  tc_index :: int
  tc_id :: string
  tc_name :: string
  tc_arguments :: string

text \<open>
  What \<^verbatim>\<open>json.loads\<close> returns. An object is the list of its members, looked up with
  \<open>map_of\<close>; a number with a fraction or an exponent keeps its text.
\<close>

datatype json =
    JNull
  | JBool bool
  | JInt int
  | JFloat string
  | JStr string
  | JArr "json list"
  | JObj "(string \<times> json) list"

text \<open>
  The surroundings of a call: \<^verbatim>\<open>json.loads\<close> (library code, \<open>Inl\<close> where it raises
  \<^verbatim>\<open>JSONDecodeError\<close>), \<^verbatim>\<open>MainWindow.refresh_all_pages\<close> (user-interface code that
  redraws every page and may query the database on the way: it returns the database it leaves
  and the exception it raised, if any), the date and the clock, and
  \<^verbatim>\<open>self.main.current_task\<close>.
\<close>

record env =
  env_loads :: "string \<Rightarrow> pyexc + json"
  env_refresh_all_pages :: "db \<Rightarrow> pyexc option \<times> db"
  env_today :: string
  env_now :: timestamp
  env_current_task :: "task_dict option"

text \<open>
  The string a call returns, one constructor per \<^verbatim>\<open>return\<close> of \<^verbatim>\<open>_execute_tool\<close>: the
  constructor carries the values the program formats into the string (with
  \<^verbatim>\<open>json.dumps\<close> or an f-string). \<open>ToolError\<close> is the string of the \<^verbatim>\<open>except\<close>
  clause; it carries the value of the variable \<^verbatim>\<open>name\<close> at that moment, which two
  branches rebind.
\<close>

datatype tool_result =
    StudentInfo student
  | NotFound
  | StudentList "student list"
  | ClassList "string list"
  | TodayStats int int int
  | MarkedSubmitted string
  | NoCurrentTask
  | GradeSet string "string option"
  | StudentAdded string string string
  | StudentUpdated string
  | StudentDeleted string
  | TaskList "task list"
  | TaskDetails "detail list"
  | StudentHistory "history list"
  | ExportHint
  | UnknownTool string
  | ToolError "string option" pyexc

text \<open>
  \<^verbatim>\<open>args[key]\<close> and \<^verbatim>\<open>args.get(key)\<close>. Only an object has string keys and a
  \<^verbatim>\<open>get\<close> method.
\<close>

definition getitem :: "json \<Rightarrow> string \<Rightarrow> pyexc + json" where
  "getitem args key =
     (case args of
        JObj members \<Rightarrow>
          (case map_of members key of None \<Rightarrow> Inl (KeyError key) | Some v \<Rightarrow> Inr v)
      | _ \<Rightarrow> Inl TypeError)"

definition get_or_none :: "json \<Rightarrow> string \<Rightarrow> pyexc + json" where
  "get_or_none args key =
     (case args of
        JObj members \<Rightarrow> (case map_of members key of None \<Rightarrow> Inr JNull | Some v \<Rightarrow> Inr v)
      | _ \<Rightarrow> Inl AttributeError)"

text \<open>
  The schema of \<^verbatim>\<open>_get_tools\<close> declares every argument a string, but \<^verbatim>\<open>task_id\<close>, an
  integer. The model follows the program on values of the declared type (and on
  \<^verbatim>\<open>null\<close> where the program tests for it). A value of another JSON type the program
  hands on to SQLite, whose conversions between types are not modelled; the model reports
  such a value as a fault inside the \<^verbatim>\<open>try\<close> block.
\<close>

definition as_text :: "json \<Rightarrow> pyexc + string" where
  "as_text v = (case v of JStr s \<Rightarrow> Inr s | _ \<Rightarrow> Inl TypeError)"

definition as_opt_text :: "json \<Rightarrow> pyexc + string option" where
  "as_opt_text v = (case v of JNull \<Rightarrow> Inr None | JStr s \<Rightarrow> Inr (Some s) | _ \<Rightarrow> Inl TypeError)"

definition as_integer :: "json \<Rightarrow> pyexc + int" where
  "as_integer v = (case v of JInt n \<Rightarrow> bind_int64 n | _ \<Rightarrow> Inl TypeError)"

definition bind_exc :: "pyexc + 'a \<Rightarrow> ('a \<Rightarrow> pyexc + 'b) \<Rightarrow> pyexc + 'b" where
  "bind_exc m f = (case m of Inl e \<Rightarrow> Inl e | Inr x \<Rightarrow> f x)"

definition text_arg :: "json \<Rightarrow> string \<Rightarrow> pyexc + string" where
  "text_arg args key = bind_exc (getitem args key) as_text"

definition opt_text_arg :: "json \<Rightarrow> string \<Rightarrow> pyexc + string option" where
  "opt_text_arg args key = bind_exc (get_or_none args key) as_opt_text"

text \<open>
  \<^verbatim>\<open>student_id[:4] + "..." if student_id[:4].isdigit() else "..."\<close>: the class of a new
  student whose call names none. The two literals are Chinese text, given in UTF-8.
\<close>

definition class_from_id :: "string \<Rightarrow> string" where
  "class_from_id student_id =
     (if take 4 student_id \<noteq> [] \<and> list_all is_digit (take 4 student_id)
      then take 4 student_id @ [CHR 0xE7, CHR 0x8F, CHR 0xAD]
      else [CHR 0xE6, CHR 0x9C, CHR 0xAA, CHR 0xE7, CHR 0x9F, CHR 0xA5])"

subsection \<open>\<^verbatim>\<open>AIChatWidget._execute_tool\<close>\<close>

type_synonym tried = "((string option \<times> pyexc) + tool_result) \<times> db"

definition fault :: "string option \<Rightarrow> pyexc \<Rightarrow> db \<Rightarrow> tried" where
  "fault name e d = (Inl (name, e), d)"

definition refreshed :: "env \<Rightarrow> string option \<Rightarrow> tool_result \<Rightarrow> db \<Rightarrow> tried" where
  "refreshed E name res d =
     (case env_refresh_all_pages E d of
        (None, d') \<Rightarrow> (Inr res, d')
      | (Some e, d') \<Rightarrow> (Inl (name, e), d'))"

text \<open>
  The body of the \<^verbatim>\<open>try\<close> block: the chain of comparisons of \<^verbatim>\<open>name\<close>, in the order
  of the source. The result is the returned string, or the exception with the value of
  \<^verbatim>\<open>name\<close> when it was raised, and the database as the committed statements left it.
\<close>

definition try_body :: "env \<Rightarrow> string \<Rightarrow> json \<Rightarrow> db \<Rightarrow> tried" where
  "try_body E name args d =
     (if name = ''get_student_info'' then
        (case text_arg args ''student_id'' of
           Inl e \<Rightarrow> fault (Some name) e d
         | Inr sid \<Rightarrow>
             (case get_student sid d of
                Some student \<Rightarrow> (Inr (StudentInfo student), d)
              | None \<Rightarrow> (Inr NotFound, d)))
      else if name = ''get_students_by_class'' then
        (case text_arg args ''class_name'' of
           Inl e \<Rightarrow> fault (Some name) e d
         | Inr c \<Rightarrow> (Inr (StudentList (get_students_by_class c d)), d))
      else if name = ''get_students_by_id_range'' then
        (case text_arg args ''start_id'' of
           Inl e \<Rightarrow> fault (Some name) e d
         | Inr a \<Rightarrow>
             (case text_arg args ''end_id'' of
                Inl e \<Rightarrow> fault (Some name) e d
              | Inr b \<Rightarrow>
                  (case get_students_by_id_range a b d of
                     Inl e \<Rightarrow> fault (Some name) e d
                   | Inr rows \<Rightarrow> (Inr (StudentList rows), d))))
      else if name = ''get_all_classes'' then
        (Inr (ClassList (get_all_classes d)), d)
      else if name = ''get_today_stats'' then
        (case get_today_stats (env_today E) (env_now E) d of
           (Inl e, d') \<Rightarrow> fault (Some name) e d'
         | (Inr (n_total, n_submitted, n_missing), d') \<Rightarrow>
             (Inr (TodayStats n_total n_submitted n_missing), d'))
      else if name = ''mark_student_submitted'' then
        (case env_current_task E of
           Some task \<Rightarrow>
             (case text_arg args ''student_id'' of
                Inl e \<Rightarrow> fault (Some name) e d
              | Inr sid \<Rightarrow>
                  refreshed E (Some name) (MarkedSubmitted sid)
                    (submit_student (k_id task) sid (env_now E) d))
         | None \<Rightarrow> (Inr NoCurrentTask, d))
      else if name = ''set_student_grade'' then
        (case env_current_task E of
           Some task \<Rightarrow>
             (case text_arg args ''student_id'' of
                Inl e \<Rightarrow> fault (Some name) e d
              | Inr sid \<Rightarrow>
                  (case bind_exc (getitem args ''grade'') as_opt_text of
                     Inl e \<Rightarrow> fault (Some name) e d
                   | Inr grade \<Rightarrow>
                       refreshed E (Some name) (GradeSet sid grade)
                         (set_grade (k_id task) sid grade (env_now E) d)))
         | None \<Rightarrow> (Inr NoCurrentTask, d))
      else if name = ''add_student'' then
        (case text_arg args ''student_id'' of
           Inl e \<Rightarrow> fault (Some name) e d
         | Inr student_id \<Rightarrow>
             (case text_arg args ''name'' of
                Inl e \<Rightarrow> fault (Some name) e d
              | Inr name' \<Rightarrow>
                  (case opt_text_arg args ''class'' of
                     Inl e \<Rightarrow> fault (Some name') e d
                   | Inr given \<Rightarrow>
                       let cls = (if given = None \<or> given = Some [] then class_from_id student_id
                                  else the given)
                       in refreshed E (Some name') (StudentAdded name' student_id cls)
                            (add_student student_id name' cls (env_now E) d))))
      else if name = ''update_student'' then
        (case text_arg args ''student_id'' of
           Inl e \<Rightarrow> fault (Some name) e d
         | Inr student_id \<Rightarrow>
             (case opt_text_arg args ''name'' of
                Inl e \<Rightarrow> fault (Some name) e d
              | Inr name' \<Rightarrow>
                  (case opt_text_arg args ''class'' of
                     Inl e \<Rightarrow> fault name' e d
                   | Inr cls \<Rightarrow>
                       refreshed E name' (StudentUpdated student_id)
                         (update_student student_id name' cls d))))
      else if name = ''delete_student'' then
        (case text_arg args ''student_id'' of
           Inl e \<Rightarrow> fault (Some name) e d
         | Inr student_id \<Rightarrow>
             refreshed E (Some name) (StudentDeleted student_id) (delete_student student_id d))
      else if name = ''get_all_tasks'' then
        (Inr (TaskList (get_all_tasks d)), d)
      else if name = ''get_task_details'' then
        (case bind_exc (getitem args ''task_id'') as_integer of
           Inl e \<Rightarrow> fault (Some name) e d
         | Inr task_id \<Rightarrow>
             (case get_task_details task_id (env_now E) d of
                Inl e \<Rightarrow> fault (Some name) e d
              | Inr (details, d') \<Rightarrow> (Inr (TaskDetails details), d')))
      else if name = ''get_student_history'' then
        (case text_arg args ''student_id'' of
           Inl e \<Rightarrow> fault (Some name) e d
         | Inr sid \<Rightarrow> (Inr (StudentHistory (get_student_history sid d)), d))
      else if name = ''export_current_class'' then
        (Inr ExportHint, d)
      else (Inr (UnknownTool name), d))"

text \<open>
  \<^verbatim>\<open>_execute_tool\<close>: \<^verbatim>\<open>json.loads(tool_call.function.arguments)\<close> stands before the
  \<^verbatim>\<open>try\<close>, so what it raises leaves the method; what the body raises becomes the
  string of the \<^verbatim>\<open>except\<close> clause.
\<close>

definition execute_tool :: "env \<Rightarrow> tool_call \<Rightarrow> db \<Rightarrow> pyexc + tool_result \<times> db" where
  "execute_tool E tool_call d =
     (let name = tc_name tool_call in
      case env_loads E (tc_arguments tool_call) of
        Inl e \<Rightarrow> Inl e
      | Inr args \<Rightarrow>
          (case try_body E name args d of
             (Inr result, d') \<Rightarrow> Inr (result, d')
           | (Inl (name', e), d') \<Rightarrow> Inr (ToolError name' e, d')))"

subsection \<open>The assistant session\<close>

text \<open>
  The turns of \<^verbatim>\<open>self.messages\<close>, the history sent to the model: a user turn, an
  assistant turn that carries tool calls, a tool turn (the identifier of the call and its
  result) and an assistant turn with content.
\<close>

datatype message =
    UserTurn string
  | AssistantCalls "tool_call list"
  | ToolTurn string tool_result
  | AssistantTurn string

text \<open>
  The fields of \<^verbatim>\<open>AIChatWidget\<close> that the request loop reads and writes;
  \<open>input_enabled\<close> is the state of \<^verbatim>\<open>self.main.input_edit\<close>. The list widget that
  shows the conversation is rendering and is left out.
\<close>

record chat =
  messages :: "message list"
  is_generating :: bool
  cancelled :: bool
  input_enabled :: bool

text \<open>
  \<^verbatim>\<open>send_message\<close>: \<open>api_key\<close> is the key that \<^verbatim>\<open>load_config\<close> has just read.
  Without a key the method shows a notice and returns; with one it appends the user turn
  and starts the thread that runs \<^verbatim>\<open>_call_deepseek_api\<close> (the flag of the result).
\<close>

definition send_message :: "string \<Rightarrow> string \<Rightarrow> chat \<Rightarrow> bool \<times> chat" where
  "send_message api_key user_input c =
     (if api_key = [] then (False, c)
      else (True, c\<lparr>messages := messages c @ [UserTurn user_input],
                     is_generating := True, cancelled := False, input_enabled := False\<rparr>))"

definition cancel_generation :: "chat \<Rightarrow> chat" where
  "cancel_generation c = c\<lparr>cancelled := True, is_generating := False, input_enabled := True\<rparr>"

text \<open>\<^verbatim>\<open>_finish_message_ui\<close>, the slot of \<^verbatim>\<open>finish_message_signal\<close>.\<close>

definition finish_message_ui :: "chat \<Rightarrow> chat" where
  "finish_message_ui c = c\<lparr>is_generating := False, input_enabled := True\<rparr>"

text \<open>
  A chunk of the stream, as far as the loop reads it: \<^verbatim>\<open>choices[0].delta\<close> (absent when
  \<^verbatim>\<open>choices\<close> is empty or the delta is), with its content and its tool-call fragments.
  The loop also stores \<^verbatim>\<open>finish_reason\<close>, which nothing reads.
\<close>

record delta =
  dl_content :: "string option"
  dl_tool_calls :: "tool_call list"

type_synonym chunk = "delta option"

text \<open>
  \<^verbatim>\<open>tool_calls\<close> is a dictionary from index to tool call, in insertion order: the first
  fragment with an index is stored, the arguments of a later one are appended.
\<close>

definition merge_tool_call :: "tool_call list \<Rightarrow> tool_call \<Rightarrow> tool_call list" where
  "merge_tool_call tool_calls tc =
     (if tc_index tc \<notin> set (map tc_index tool_calls) then tool_calls @ [tc]
      else map (\<lambda>old. if tc_index old = tc_index tc
                        then old\<lparr>tc_arguments := tc_arguments old @ tc_arguments tc\<rparr>
                        else old) tool_calls)"

definition apply_chunk :: "chunk \<Rightarrow> string \<times> tool_call list \<Rightarrow> string \<times> tool_call list" where
  "apply_chunk ch acc =
     (case ch of
        None \<Rightarrow> acc
      | Some dl \<Rightarrow>
          (case acc of (full_response, tool_calls) \<Rightarrow>
            ((case dl_content dl of None \<Rightarrow> full_response | Some t \<Rightarrow> full_response @ t),
             foldl merge_tool_call tool_calls (dl_tool_calls dl))))"

subsection \<open>The threads of the session\<close>

text \<open>
  How a thread that runs \<^verbatim>\<open>_call_deepseek_api\<close> ends: with the final answer, on a
  cancellation it has seen, with an exception that nothing catches, or at once because the
  client library is not installed.
\<close>

datatype outcome = Completed | Cancelled | Failed pyexc | NoClient

text \<open>
  Where such a thread stands: before \<^verbatim>\<open>from openai import OpenAI\<close>; at the top of the
  \<^verbatim>\<open>while True\<close> loop, before \<^verbatim>\<open>client.chat.completions.create\<close>; inside
  \<^verbatim>\<open>for chunk in response\<close>, with \<^verbatim>\<open>full_response\<close> and \<^verbatim>\<open>tool_calls\<close>; after
  that loop, before \<^verbatim>\<open>if self.cancelled\<close>; among the tool calls of a round, with
  \<^verbatim>\<open>tool_calls_list\<close>, the \<^verbatim>\<open>tool_messages\<close> collected and the calls still to run;
  or at its end.
\<close>

datatype phase =
    Started
  | Calling
  | Streaming string "tool_call list"
  | AfterLoop string "tool_call list"
  | Executing "tool_call list" "message list" "tool_call list"
  | Ended outcome

text \<open>
  The next move of a thread, with what its surroundings give it: the import succeeds or
  not; \<^verbatim>\<open>create\<close> returns a response or raises; the iterator of the response yields a
  chunk, raises, or is exhausted; or the thread runs on by itself to its next access to the
  shared state.
\<close>

datatype move =
    Import bool
  | Create "pyexc option"
  | Next "pyexc + chunk"
  | Exhausted
  | Run

text \<open>
  The session: the fields of the widget, the database, every thread started so far
  (\<^verbatim>\<open>self.thread\<close> is the last) and the number of emissions of
  \<^verbatim>\<open>finish_message_signal\<close> that the main thread has not handled yet. The signal is
  emitted by a thread and its slot belongs to the widget, so Qt queues it.
\<close>

record session =
  s_chat :: chat
  s_db :: db
  s_threads :: "phase list"
  s_signals :: nat

definition emit_finish :: "session \<Rightarrow> session" where
  "emit_finish s = s\<lparr>s_signals := s_signals s + 1\<rparr>"

definition append_messages :: "message list \<Rightarrow> session \<Rightarrow> session" where
  "append_messages ms s = s\<lparr>s_chat := (s_chat s)\<lparr>messages := messages (s_chat s) @ ms\<rparr>\<rparr>"

text \<open>
  One move of a thread, a step of the loop taken as a whole; it looks at
  \<^verbatim>\<open>self.cancelled\<close> once at most, at its start. In the order of the source:
  \<^item> \<^verbatim>\<open>for chunk in response: if self.cancelled: break\<close>, then the chunk is merged;
  \<^item> after the loop, \<^verbatim>\<open>if self.cancelled:\<close> emits the signal and returns; otherwise
    tool calls, if there are any, are appended to the history as an assistant turn, and
    else the signal is emitted and the answer appended;
  \<^item> every tool call is one \<^verbatim>\<open>_execute_tool\<close>, whose exception nothing catches;
  \<^item> after the last one \<^verbatim>\<open>self.messages.extend(tool_messages)\<close>, and the loop starts
    again.
  A move that does not fit the place of the thread does nothing. The messages sent with
  \<^verbatim>\<open>create\<close> do not enter the state and are left out.
\<close>

fun thread_step :: "env \<Rightarrow> move \<Rightarrow> phase \<Rightarrow> session \<Rightarrow> phase \<times> session" where
  "thread_step E (Import ok) Started s =
     (if ok then (Calling, s) else (Ended NoClient, emit_finish s))"
| "thread_step E (Create r) Calling s =
     (case r of Some e \<Rightarrow> (Ended (Failed e), s) | None \<Rightarrow> (Streaming [] [], s))"
| "thread_step E (Next x) (Streaming full_response tool_calls) s =
     (case x of
        Inl e \<Rightarrow> (Ended (Failed e), s)
      | Inr ch \<Rightarrow>
          if cancelled (s_chat s) then (AfterLoop full_response tool_calls, s)
          else (case apply_chunk ch (full_response, tool_calls) of
                  (full_response', tool_calls') \<Rightarrow> (Streaming full_response' tool_calls', s)))"
| "thread_step E Exhausted (Streaming full_response tool_calls) s =
     (AfterLoop full_response tool_calls, s)"
| "thread_step E Run (AfterLoop full_response tool_calls) s =
     (if cancelled (s_chat s) then (Ended Cancelled, emit_finish s)
      else if tool_calls \<noteq> [] then
        (Executing tool_calls [] tool_calls, append_messages [AssistantCalls tool_calls] s)
      else (Ended Completed, append_messages [AssistantTurn full_response] (emit_finish s)))"
| "thread_step E Run (Executing tool_calls_list tool_messages (tool_call # rest)) s =
     (case execute_tool E tool_call (s_db s) of
        Inl e \<Rightarrow> (Ended (Failed e), s)
      | Inr (result, d') \<Rightarrow>
          (Executing tool_calls_list (tool_messages @ [ToolTurn (tc_id tool_call) result]) rest,
           s\<lparr>s_db := d'\<rparr>))"
| "thread_step E Run (Executing tool_calls_list tool_messages []) s =
     (Calling, append_messages tool_messages s)"
| "thread_step E m p s = (p, s)"

text \<open>
  What can happen next in the session: the user submits a message (\<^verbatim>\<open>send_message\<close>,
  with the key that \<^verbatim>\<open>load_config\<close> reads), the user cancels
  (\<^verbatim>\<open>cancel_generation\<close>), the main thread handles a queued signal
  (\<^verbatim>\<open>_finish_message_ui\<close>), or a thread moves. \<^verbatim>\<open>cancel_generation\<close> enables the
  input again and waits for the thread for one second at most, and \<^verbatim>\<open>send_message\<close>
  asks nothing about a running thread: a message can be sent while a cancelled thread is
  alive, and a list of actions is any schedule of the threads.
\<close>

datatype action =
    Send_message string string
  | Cancel_generation
  | Finish_message_ui
  | Thread nat move

definition step :: "env \<Rightarrow> action \<Rightarrow> session \<Rightarrow> session" where
  "step E a s =
     (case a of
        Send_message api_key user_input \<Rightarrow>
          (case send_message api_key user_input (s_chat s) of
             (started, c) \<Rightarrow>
               s\<lparr>s_chat := c,
                 s_threads := (if started then s_threads s @ [Started] else s_threads s)\<rparr>)
      | Cancel_generation \<Rightarrow> s\<lparr>s_chat := cancel_generation (s_chat s)\<rparr>
      | Finish_message_ui \<Rightarrow>
          (if 0 < s_signals s
           then s\<lparr>s_chat := finish_message_ui (s_chat s), s_signals := s_signals s - 1\<rparr>
           else s)
      | Thread i m \<Rightarrow>
          (if i < length (s_threads s) then
             (case thread_step E m (s_threads s ! i) s of
                (p, s') \<Rightarrow> s'\<lparr>s_threads := (s_threads s')[i := p]\<rparr>)
           else s))"

fun run :: "env \<Rightarrow> action list \<Rightarrow> session \<Rightarrow> session" where
  "run E [] s = s"
| "run E (a # as) s = run E as (step E a s)"

subsection \<open>Notions used in the statements\<close>

text \<open>The students that have no row under a task.\<close>

definition missing_ids :: "int \<Rightarrow> db \<Rightarrow> string list" where
  "missing_ids task_id d =
     filter (\<lambda>sid. sid \<notin> set (map td_student_id (td_rows task_id d)))
       (map s_student_id (students d))"

text \<open>
  What a backfill of a task may do to a database: \<^verbatim>\<open>students\<close> stays, and
  \<^verbatim>\<open>task_details\<close> stays but for rows added at its end, each a row of the task with
  status \<^verbatim>\<open>missing\<close> and no grade.
\<close>

definition backfilled :: "int \<Rightarrow> db \<Rightarrow> db \<Rightarrow> bool" where
  "backfilled task_id d d' \<longleftrightarrow>
     students d' = students d \<and>
     take (length (task_details d)) (task_details d') = task_details d \<and>
     list_all (\<lambda>r. td_task_id r = task_id \<and> td_status r = ''missing'' \<and> td_grade r = None)
       (drop (length (task_details d)) (task_details d'))"

text \<open>The row of a pair of task and student, if there is one.\<close>

definition lookup_td :: "int \<Rightarrow> string \<Rightarrow> db \<Rightarrow> task_detail option" where
  "lookup_td task_id student_id d =
     find (\<lambda>r. td_key r = (task_id, student_id)) (task_details d)"

text \<open>
  The turns that a completed round of tool calls has put into the history: the assistant
  turn with the calls, then one tool turn for every call, in order.
\<close>

definition round_turns :: "(tool_call \<times> tool_result) list \<Rightarrow> message list" where
  "round_turns r =
     AssistantCalls (map fst r) # map (\<lambda>x. ToolTurn (tc_id (fst x)) (snd x)) r"

fun is_ended :: "phase \<Rightarrow> bool" where
  "is_ended (Ended _) = True"
| "is_ended _ = False"

fun is_send :: "action \<Rightarrow> bool" where
  "is_send (Send_message _ _) = True"
| "is_send _ = False"

text \<open>
  A thread inside a round of the loop that has committed nothing yet: before
  \<^verbatim>\<open>create\<close>, reading the response, after it, or ended on a cancellation.
\<close>

fun in_round :: "phase \<Rightarrow> bool" where
  "in_round Calling = True"
| "in_round (Streaming _ _) = True"
| "in_round (AfterLoop _ _) = True"
| "in_round (Ended Cancelled) = True"
| "in_round _ = False"

text \<open>The calls of \<^verbatim>\<open>create\<close> that a schedule gives to thread \<open>n\<close>.\<close>

fun is_create :: "nat \<Rightarrow> action \<Rightarrow> bool" where
  "is_create n (Thread i (Create _)) = (i = n)"
| "is_create n _ = False"

text \<open>
  A request that nothing disturbs: the thread \<open>n\<close> imports the client, gets a
  response, reads its chunks to the end and runs on. For chunks without tool calls
  \<open>content_of\<close> is the answer they spell.
\<close>

definition answer_schedule :: "nat \<Rightarrow> chunk list \<Rightarrow> action list" where
  "answer_schedule n chunks =
     [Thread n (Import True), Thread n (Create None)] @
     map (\<lambda>ch. Thread n (Next (Inr ch))) chunks @
     [Thread n Exhausted, Thread n Run]"

definition no_tool_calls :: "chunk \<Rightarrow> bool" where
  "no_tool_calls ch = (case ch of None \<Rightarrow> True | Some dl \<Rightarrow> dl_tool_calls dl = [])"

definition content_of :: "chunk list \<Rightarrow> string" where
  "content_of chunks = fst (foldl (\<lambda>acc ch. apply_chunk ch acc) ([], []) chunks)"

text \<open>
  What the history holds behind the user turn of a request while no other message is
  sent, by the place of its thread and the number \<open>k\<close> of responses asked for: complete
  rounds of tool calls, fewer than \<open>k\<close> once a response is being read, and among the
  tool calls of a round also the assistant turn of that round, whose tool turns are still
  with the thread.
\<close>

definition whole_rounds :: "message list \<Rightarrow> (tool_call \<times> tool_result) list list \<Rightarrow> bool" where
  "whole_rounds ms rounds \<longleftrightarrow> ms = concat (map round_turns rounds) \<and> [] \<notin> set rounds"

fun request_inv :: "phase \<Rightarrow> message list \<Rightarrow> nat \<Rightarrow> bool" where
  "request_inv Started ms k = (ms = [])"
| "request_inv Calling ms k = (\<exists>rounds. whole_rounds ms rounds \<and> length rounds \<le> k)"
| "request_inv (Streaming _ _) ms k = (\<exists>rounds. whole_rounds ms rounds \<and> length rounds < k)"
| "request_inv (AfterLoop _ _) ms k = (\<exists>rounds. whole_rounds ms rounds \<and> length rounds < k)"
| "request_inv (Executing tool_calls_list tool_messages rest) ms k =
     (\<exists>rounds r. ms = concat (map round_turns rounds) @ [AssistantCalls tool_calls_list] \<and>
        [] \<notin> set rounds \<and> length rounds < k \<and> tool_calls_list \<noteq> [] \<and>
        tool_calls_list = map fst r @ rest \<and>
        tool_messages = map (\<lambda>x. ToolTurn (tc_id (fst x)) (snd x)) r)"
| "request_inv (Ended Cancelled) ms k = (\<exists>rounds. whole_rounds ms rounds \<and> length rounds < k)"
| "request_inv (Ended _) ms k = True"

text \<open>A student identifier made of decimal digits, at most 18 of them.\<close>

definition numeric_id :: "string \<Rightarrow> bool" where
  "numeric_id s \<longleftrightarrow> s \<noteq> [] \<and> list_all is_digit s \<and> length s \<le> 18"

text \<open>
  A small database: two students of one class, one task, and the submission of the first
  student, graded.
\<close>

definition db_example :: db where
  "db_example =
     \<lparr>students =
        [\<lparr>s_id = 1, s_student_id = ''202301'', s_name = ''Zhang'', s_class = ''2023'',
          s_created_at = ''2026-03-01 08:00:00''\<rparr>,
         \<lparr>s_id = 2, s_student_id = ''202302'', s_name = ''Li'', s_class = ''2023'',
          s_created_at = ''2026-03-01 08:00:05''\<rparr>],
      tasks =
        [\<lparr>t_id = 1, t_name = ''hw-2026-03-02'', t_date = ''2026-03-02'',
          t_created_at = ''2026-03-02 07:30:00''\<rparr>],
      task_details =
        [\<lparr>td_id = 1, td_task_id = 1, td_student_id = ''202301'', td_status = ''submitted'',
          td_grade = Some ''A'', td_updated_at = ''2026-03-02 09:00:00''\<rparr>],
      seq_students = 2, seq_tasks = 1, seq_task_details = 1\<rparr>"

text \<open>
  An environment for examples. Its \<open>env_loads\<close> is \<^verbatim>\<open>json.loads\<close> on the three
  strings it names: the empty object, an object with a student identifier, and the empty
  string, which is no JSON text (\<^verbatim>\<open>json.loads("")\<close> raises \<^verbatim>\<open>JSONDecodeError\<close>); no
  example applies it to another string. Its \<open>env_refresh_all_pages\<close> redraws without
  a query.
\<close>

definition loads_sample :: "string \<Rightarrow> pyexc + json" where
  \<open>loads_sample s =
     (if s = ''{}'' then Inr (JObj [])
      else if s = ''{"student_id": "202302"}'' then Inr (JObj [(''student_id'', JStr ''202302'')])
      else Inl JSONDecodeError)\<close>

definition env_example :: env where
  "env_example =
     \<lparr>env_loads = loads_sample,
      env_refresh_all_pages = (\<lambda>d. (None, d)),
      env_today = ''2026-03-02'',
      env_now = ''2026-03-02 10:00:00'',
      env_current_task =
        Some \<lparr>k_id = 1, k_name = ''hw-2026-03-02'', k_date = ''2026-03-02'',
              k_created_at = Some ''2026-03-02 07:30:00''\<rparr>\<rparr>"

definition chat_idle :: chat where
  "chat_idle = \<lparr>messages = [], is_generating = False, cancelled = False, input_enabled = True\<rparr>"

definition session_idle :: session where
  "session_idle = \<lparr>s_chat = chat_idle, s_db = db_example, s_threads = [], s_signals = 0\<rparr>"

text \<open>
  A schedule for the thread of one request: a response that calls \<^verbatim>\<open>get_all_classes\<close>,
  its arguments in two fragments; the round of that call; and a second response, during
  which the user cancels.
\<close>

definition schedule_example :: "action list" where
  "schedule_example =
     [Thread 0 (Import True), Thread 0 (Create None),
      Thread 0 (Next (Inr (Some \<lparr>dl_content = None, dl_tool_calls =
        [\<lparr>tc_index = 0, tc_id = ''call_1'', tc_name = ''get_all_classes'',
          tc_arguments = ''{''\<rparr>]\<rparr>))),
      Thread 0 (Next (Inr (Some \<lparr>dl_content = None, dl_tool_calls =
        [\<lparr>tc_index = 0, tc_id = [], tc_name = [], tc_arguments = ''}''\<rparr>]\<rparr>))),
      Thread 0 Exhausted, Thread 0 Run, Thread 0 Run, Thread 0 Run,
      Thread 0 (Create None),
      Thread 0 (Next (Inr (Some \<lparr>dl_content = Some ''The '', dl_tool_calls = []\<rparr>))),
      Cancel_generation,
      Thread 0 (Next (Inr (Some \<lparr>dl_content = Some ''classes'', dl_tool_calls = []\<rparr>))),
      Thread 0 Run]"

section \<open>Properties\<close>

subsection \<open>\<^verbatim>\<open>ensure_task_students\<close>\<close>

lemma insert_task_detail_Inr:
  "insert_task_detail now (task_id, sid, st) d = Inr d' \<Longrightarrow>
     \<not> has_td task_id sid d \<and> students d' = students d \<and> tasks d' = tasks d \<and>
     seq_students d' = seq_students d \<and> seq_tasks d' = seq_tasks d \<and>
     (\<exists>rid. task_details d' = task_details d @
        [\<lparr>td_id = rid, td_task_id = task_id, td_student_id = sid, td_status = st,
          td_grade = None, td_updated_at = now\<rparr>])"
  by (auto simp: insert_task_detail_def Let_def split: if_splits)

lemma insert_task_detail_ok:
  "\<not> has_td task_id sid d \<Longrightarrow> \<exists>d'. insert_task_detail now (task_id, sid, st) d = Inr d'"
  by (simp add: insert_task_detail_def Let_def)

lemma has_td_append:
  "task_details d' = task_details d @ new \<Longrightarrow>
   has_td task_id sid d' \<longleftrightarrow> has_td task_id sid d \<or> (task_id, sid) \<in> set (map td_key new)"
  by (auto simp: has_td_def)

lemma executemany_insert_Inr:
  "executemany (map (\<lambda>sid. insert_task_detail now (task_id, sid, st)) sids) d = Inr d' \<Longrightarrow>
     students d' = students d \<and> tasks d' = tasks d \<and>
     seq_students d' = seq_students d \<and> seq_tasks d' = seq_tasks d \<and>
     (\<exists>new. task_details d' = task_details d @ new \<and> map td_student_id new = sids \<and>
        (\<forall>r \<in> set new. td_task_id r = task_id \<and> td_status r = st \<and> td_grade r = None \<and>
           td_updated_at r = now))"
proof (induction sids arbitrary: d)
  case Nil
  then show ?case by simp
next
  case (Cons sid sids)
  from Cons.prems obtain d1 where
    s1: "insert_task_detail now (task_id, sid, st) d = Inr d1" and
    s2: "executemany (map (\<lambda>sid. insert_task_detail now (task_id, sid, st)) sids) d1 = Inr d'"
    by (auto split: sum.splits)
  from insert_task_detail_Inr [OF s1] obtain rid where
    f1: "students d1 = students d" "tasks d1 = tasks d"
        "seq_students d1 = seq_students d" "seq_tasks d1 = seq_tasks d" and
    t1: "task_details d1 = task_details d @
        [\<lparr>td_id = rid, td_task_id = task_id, td_student_id = sid, td_status = st,
          td_grade = None, td_updated_at = now\<rparr>]" by blast
  from Cons.IH [OF s2] obtain new where
    f2: "students d' = students d1" "tasks d' = tasks d1"
        "seq_students d' = seq_students d1" "seq_tasks d' = seq_tasks d1" and
    t2: "task_details d' = task_details d1 @ new" "map td_student_id new = sids"
        "\<forall>r \<in> set new. td_task_id r = task_id \<and> td_status r = st \<and> td_grade r = None \<and>
           td_updated_at r = now" by blast
  let ?row = "\<lparr>td_id = rid, td_task_id = task_id, td_student_id = sid, td_status = st,
          td_grade = None, td_updated_at = now\<rparr>"
  have "task_details d' = task_details d @ (?row # new)"
    using t1 t2 by simp
  moreover have "map td_student_id (?row # new) = sid # sids"
    using t2 by simp
  moreover have "\<forall>r \<in> set (?row # new). td_task_id r = task_id \<and> td_status r = st \<and>
      td_grade r = None \<and> td_updated_at r = now"
    using t2 by simp
  ultimately show ?case using f1 f2 by metis
qed

lemma executemany_insert_ok:
  "distinct sids \<Longrightarrow> \<forall>sid \<in> set sids. \<not> has_td task_id sid d \<Longrightarrow>
     \<exists>d'. executemany (map (\<lambda>sid. insert_task_detail now (task_id, sid, st)) sids) d = Inr d'"
proof (induction sids arbitrary: d)
  case Nil
  then show ?case by simp
next
  case (Cons sid sids)
  from Cons.prems have "\<not> has_td task_id sid d" by simp
  from insert_task_detail_ok [OF this] obtain d1 where
    s1: "insert_task_detail now (task_id, sid, st) d = Inr d1" by blast
  from insert_task_detail_Inr [OF s1] obtain rid where
    td1: "task_details d1 = task_details d @
        [\<lparr>td_id = rid, td_task_id = task_id, td_student_id = sid, td_status = st,
          td_grade = None, td_updated_at = now\<rparr>]" by blast
  have "\<forall>x \<in> set sids. \<not> has_td task_id x d1"
    using Cons.prems by (auto simp: has_td_append [OF td1] td_key_def)
  with Cons.IH [of d1] Cons.prems obtain d' where
    "executemany (map (\<lambda>sid. insert_task_detail now (task_id, sid, st)) sids) d1 = Inr d'"
    by auto
  with s1 show ?case by simp
qed


lemma has_td_iff:
  "has_td task_id sid d \<longleftrightarrow> sid \<in> set (map td_student_id (td_rows task_id d))"
  by (auto simp: has_td_def td_rows_def td_key_def image_iff)

lemma ensure_task_students_Inr:
  assumes "ensure_task_students task_id now d = Inr d'"
  shows "students d' = students d \<and> tasks d' = tasks d \<and>
     seq_students d' = seq_students d \<and> seq_tasks d' = seq_tasks d \<and>
     (\<exists>new. task_details d' = task_details d @ new \<and>
        (new = [] \<or> map td_student_id new = missing_ids task_id d) \<and>
        (\<forall>r \<in> set new. td_task_id r = task_id \<and> td_status r = ''missing'' \<and> td_grade r = None \<and>
           td_updated_at r = now))"
proof (cases "int (length (td_rows task_id d)) < int (length (students d)) \<and> missing_ids task_id d \<noteq> []")
  case True
  with assms have
    "executemany (map (\<lambda>sid. insert_task_detail now (task_id, sid, ''missing'')) (missing_ids task_id d)) d
       = Inr d'"
    by (simp add: ensure_task_students_def missing_ids_def Let_def)
  from executemany_insert_Inr [OF this] show ?thesis by blast
next
  case False
  with assms have "d' = d"
    by (auto simp: ensure_task_students_def missing_ids_def Let_def split: if_splits)
  then show ?thesis by simp
qed

lemma ensure_task_students_ok:
  assumes "distinct (map s_student_id (students d))"
  shows "\<exists>d'. ensure_task_students task_id now d = Inr d'"
proof (cases "int (length (td_rows task_id d)) < int (length (students d)) \<and> missing_ids task_id d \<noteq> []")
  case True
  have "distinct (missing_ids task_id d)"
    using assms by (simp add: missing_ids_def)
  moreover have "\<forall>sid \<in> set (missing_ids task_id d). \<not> has_td task_id sid d"
    by (simp add: has_td_iff missing_ids_def)
  ultimately obtain d' where
    "executemany (map (\<lambda>sid. insert_task_detail now (task_id, sid, ''missing'')) (missing_ids task_id d)) d
       = Inr d'"
    using executemany_insert_ok by blast
  with True show ?thesis
    by (simp add: ensure_task_students_def missing_ids_def Let_def)
next
  case False
  then show ?thesis
    by (auto simp: ensure_task_students_def missing_ids_def Let_def)
qed

lemma ensure_task_students_inv:
  assumes "db_inv d" and "ensure_task_students task_id now d = Inr d'"
  shows "db_inv d'"
proof -
  from ensure_task_students_Inr [OF assms(2)] obtain new where
    st: "students d' = students d" and
    n: "task_details d' = task_details d @ new"
       "new = [] \<or> map td_student_id new = missing_ids task_id d"
       "\<forall>r \<in> set new. td_task_id r = task_id" by blast
  have keys: "map td_key new = map (\<lambda>sid. (task_id, sid)) (map td_student_id new)"
    using n(3) by (induction new) (auto simp: td_key_def)
  have dm: "distinct (missing_ids task_id d)"
    using assms(1) by (simp add: db_inv_def missing_ids_def)
  have "distinct (map td_student_id new)"
    using n(2) dm by auto
  then have d1: "distinct (map td_key new)"
    unfolding keys by (simp add: distinct_map inj_on_def)
  have "set (map td_key (task_details d)) \<inter> set (map td_key new) = {}"
  proof (rule ccontr)
    assume "set (map td_key (task_details d)) \<inter> set (map td_key new) \<noteq> {}"
    then obtain k where "k \<in> set (map td_key (task_details d))" "k \<in> set (map td_key new)"
      by blast
    then obtain r where r: "r \<in> set new" "td_key r \<in> set (map td_key (task_details d))"
      by (metis (no_types, lifting) imageE list.set_map)
    then have "has_td task_id (td_student_id r) d"
      using n(3) by (simp add: has_td_def td_key_def)
    moreover have "map td_student_id new = missing_ids task_id d"
      using r(1) n(2) by auto
    then have "td_student_id r \<in> set (missing_ids task_id d)"
      using r(1) by (metis imageI list.set_map)
    ultimately show False
      by (simp add: has_td_iff missing_ids_def)
  qed
  with d1 assms(1) show ?thesis
    by (simp add: db_inv_def st n(1))
qed

lemma ensure_task_students_covers:
  assumes e: "executemany
       (map (\<lambda>sid. insert_task_detail now (task_id, sid, ''missing'')) (missing_ids task_id d)) d = Inr d'"
  shows "missing_ids task_id d' = []"
proof -
  from executemany_insert_Inr [OF e] obtain new where
    st: "students d' = students d" and
    n: "task_details d' = task_details d @ new" "map td_student_id new = missing_ids task_id d"
       "\<forall>r \<in> set new. td_task_id r = task_id" by blast
  have "td_rows task_id d' = td_rows task_id d @ new"
    using n(1,3) by (simp add: td_rows_def)
  then have "set (map td_student_id (td_rows task_id d')) =
      set (map td_student_id (td_rows task_id d)) \<union> set (missing_ids task_id d)"
    using n(2) by (metis map_append set_append)
  then show ?thesis
    by (auto simp: missing_ids_def st filter_empty_conv)
qed

lemma ensure_task_students_twice:
  assumes "ensure_task_students task_id now d = Inr d'"
  shows "ensure_task_students task_id now' d' = Inr d'"
proof (cases "int (length (td_rows task_id d)) < int (length (students d)) \<and> missing_ids task_id d \<noteq> []")
  case True
  with assms have "executemany
       (map (\<lambda>sid. insert_task_detail now (task_id, sid, ''missing'')) (missing_ids task_id d)) d = Inr d'"
    by (simp add: ensure_task_students_def missing_ids_def Let_def)
  from ensure_task_students_covers [OF this] show ?thesis
    by (auto simp: ensure_task_students_def missing_ids_def Let_def)
next
  case False
  with assms have "d' = d"
    by (auto simp: ensure_task_students_def missing_ids_def Let_def split: if_splits)
  with False show ?thesis
    by (auto simp: ensure_task_students_def missing_ids_def Let_def)
qed

lemma db_inv_example: "db_inv db_example"
  by (simp add: db_inv_def db_example_def td_key_def)

text \<open>
  Claim C10. On a database that satisfies the constraints of the schema,
  \<^verbatim>\<open>ensure_task_students(task_id)\<close> returns, leaves \<^verbatim>\<open>students\<close> and \<^verbatim>\<open>tasks\<close> as
  they were, and leaves \<^verbatim>\<open>task_details\<close> as it was but for rows added at its end: every
  added row belongs to \<open>task_id\<close>, has status \<^verbatim>\<open>missing\<close> and no grade, and belongs to
  a student of the roster that had no row under \<open>task_id\<close>. So every row that existed,
  whatever its status, grade or task, is in the table unchanged.
\<close>

theorem ensure_task_students_only_inserts:
  assumes "db_inv d"
  shows "\<exists>d' new.
     ensure_task_students task_id now d = Inr d' \<and>
     students d' = students d \<and> tasks d' = tasks d \<and>
     task_details d' = task_details d @ new \<and>
     (\<forall>r \<in> set new.
        td_task_id r = task_id \<and> td_status r = ''missing'' \<and> td_grade r = None \<and>
        td_student_id r \<in> set (map s_student_id (students d)) \<and>
        \<not> has_td task_id (td_student_id r) d)"
proof -
  from assms have "distinct (map s_student_id (students d))"
    by (simp add: db_inv_def)
  from ensure_task_students_ok [OF this] obtain d' where
    e: "ensure_task_students task_id now d = Inr d'" by blast
  from ensure_task_students_Inr [OF e] obtain new where
    f: "students d' = students d" "tasks d' = tasks d" and
    n: "task_details d' = task_details d @ new"
       "new = [] \<or> map td_student_id new = missing_ids task_id d"
       "\<forall>r \<in> set new. td_task_id r = task_id \<and> td_status r = ''missing'' \<and>
          td_grade r = None \<and> td_updated_at r = now"
    by blast
  have "td_student_id r \<in> set (missing_ids task_id d)" if "r \<in> set new" for r
  proof -
    from that n(2) have "map td_student_id new = missing_ids task_id d" by auto
    with that show ?thesis by (metis imageI list.set_map)
  qed
  then have "\<forall>r \<in> set new. td_student_id r \<in> set (map s_student_id (students d)) \<and>
      \<not> has_td task_id (td_student_id r) d"
    by (auto simp: missing_ids_def has_td_iff)
  with e f n show ?thesis by blast
qed

theorem ensure_task_students_only_inserts_witness:
  "db_inv db_example \<and>
   (\<exists>d' new.
     ensure_task_students 1 ''2026-03-02 10:00:00'' db_example = Inr d' \<and>
     students d' = students db_example \<and> tasks d' = tasks db_example \<and>
     task_details d' = task_details db_example @ new \<and>
     (\<forall>r \<in> set new.
        td_task_id r = 1 \<and> td_status r = ''missing'' \<and> td_grade r = None \<and>
        td_student_id r \<in> set (map s_student_id (students db_example)) \<and>
        \<not> has_td 1 (td_student_id r) db_example))"
  using db_inv_example
    ensure_task_students_only_inserts [OF db_inv_example, of 1 "''2026-03-02 10:00:00''"]
  by simp

text \<open>
  Claim C8. \<^verbatim>\<open>ensure_task_students\<close> is idempotent: on a database that satisfies the
  constraints of the schema the first call returns, and a second call for the same task,
  right after it, returns and leaves the whole database, hence the set of rows of
  \<^verbatim>\<open>task_details\<close>, as the first call left it.
\<close>

theorem ensure_task_students_idempotent:
  assumes "db_inv d"
  shows "\<exists>d'. ensure_task_students task_id now d = Inr d' \<and>
               ensure_task_students task_id now' d' = Inr d'"
proof -
  from assms have "distinct (map s_student_id (students d))"
    by (simp add: db_inv_def)
  from ensure_task_students_ok [OF this] obtain d' where
    e: "ensure_task_students task_id now d = Inr d'" by blast
  from ensure_task_students_twice [OF e] e show ?thesis by blast
qed

theorem ensure_task_students_idempotent_witness:
  "db_inv db_example \<and>
   (\<exists>d'. ensure_task_students 1 ''2026-03-02 10:00:00'' db_example = Inr d' \<and>
         ensure_task_students 1 ''2026-03-02 10:05:00'' d' = Inr d' \<and>
         length (task_details d') = 2)"
proof -
  from ensure_task_students_idempotent [OF db_inv_example, of 1 "''2026-03-02 10:00:00''"
      "''2026-03-02 10:05:00''"]
  obtain d' where
    e: "ensure_task_students 1 ''2026-03-02 10:00:00'' db_example = Inr d'"
       "ensure_task_students 1 ''2026-03-02 10:05:00'' d' = Inr d'" by blast
  have "length (task_details d') = 2"
    using e(1)
    by (auto simp: ensure_task_students_def db_example_def td_rows_def Let_def
        insert_task_detail_def has_td_def td_key_def new_rowid_def)
  with e db_inv_example show ?thesis by blast
qed

subsection \<open>Rows and keys\<close>

lemma filter_key_single:
  "distinct (map f xs) \<Longrightarrow> x \<in> set xs \<Longrightarrow> filter (\<lambda>y. f y = f x) xs = [x]"
proof (induction xs)
  case Nil
  then show ?case by simp
next
  case (Cons a xs)
  show ?case
  proof (cases "a = x")
    case True
    with Cons.prems have "f x \<notin> f ` set xs" by simp
    then have "\<forall>y \<in> set xs. f y \<noteq> f x" by (metis imageI)
    then have "filter (\<lambda>y. f y = f x) xs = []"
      by (simp add: filter_empty_conv)
    with True show ?thesis by simp
  next
    case False
    with Cons.prems have "x \<in> set xs" "f a \<noteq> f x" "distinct (map f xs)" by auto
    with Cons.IH show ?thesis by simp
  qed
qed

lemma filter_key_none:
  assumes "k \<notin> set (map f xs)"
  shows "filter (\<lambda>y. f y = k) xs = []"
proof -
  from assms have "k \<notin> f ` set xs" by simp
  then have "\<forall>y \<in> set xs. f y \<noteq> k" by (metis imageI)
  then show ?thesis by (simp add: filter_empty_conv)
qed

lemma lookup_td_Some:
  "lookup_td task_id sid d = Some r \<Longrightarrow> r \<in> set (task_details d) \<and> td_key r = (task_id, sid)"
  by (auto simp: lookup_td_def find_Some_iff in_set_conv_nth)

lemma lookup_td_None:
  "lookup_td task_id sid d = None \<longleftrightarrow> \<not> has_td task_id sid d"
  by (force simp: lookup_td_def find_None_iff has_td_def image_iff)

lemma lookup_td_rows:
  assumes "distinct (map td_key (task_details d))"
  shows "filter (\<lambda>r. td_key r = (task_id, sid)) (task_details d) =
     (case lookup_td task_id sid d of None \<Rightarrow> [] | Some r \<Rightarrow> [r])"
proof (cases "lookup_td task_id sid d")
  case None
  then have "(task_id, sid) \<notin> set (map td_key (task_details d))"
    by (simp add: lookup_td_None has_td_def)
  from filter_key_none [OF this] None show ?thesis by simp
next
  case (Some r)
  from lookup_td_Some [OF Some] filter_key_single [OF assms, of r] Some show ?thesis
    by simp
qed

lemma find_append_Some:
  "find P xs = Some r \<Longrightarrow> find P (xs @ ys) = Some r"
  by (induction xs) (auto split: if_splits)

lemma lookup_td_append:
  "task_details d' = task_details d @ new \<Longrightarrow> lookup_td task_id sid d = Some r \<Longrightarrow>
     lookup_td task_id sid d' = Some r"
  by (simp add: lookup_td_def find_append_Some)

subsection \<open>The upsert\<close>

lemma upsert_frame:
  "students (upsert_task_detail row f d) = students d \<and>
   tasks (upsert_task_detail row f d) = tasks d \<and>
   seq_students (upsert_task_detail row f d) = seq_students d \<and>
   seq_tasks (upsert_task_detail row f d) = seq_tasks d"
  by (simp add: upsert_task_detail_def Let_def)

lemma upsert_new:
  assumes "lookup_td (td_task_id row) (td_student_id row) d = None"
  shows "task_details (upsert_task_detail row f d) =
     task_details d @
       [row\<lparr>td_id := new_rowid (seq_task_details d) (map td_id (task_details d))\<rparr>]"
  using assms by (simp add: upsert_task_detail_def Let_def lookup_td_None)

lemma find_map_update:
  assumes "find (\<lambda>r. g r = k) xs = Some r" and "\<And>x. g (f x) = g x"
  shows "find (\<lambda>r. g r = k) (map (\<lambda>x. if g x = k then f x else x) xs) = Some (f r)"
  using assms by (induction xs) (auto split: if_splits)

lemma upsert_old:
  assumes "lookup_td (td_task_id row) (td_student_id row) d = Some r"
    and "\<And>x. td_key (f x) = td_key x"
  shows "lookup_td (td_task_id row) (td_student_id row) (upsert_task_detail row f d) = Some (f r)"
    and "length (task_details (upsert_task_detail row f d)) = length (task_details d)"
proof -
  from assms(1) have h: "has_td (td_task_id row) (td_student_id row) d"
    by (metis lookup_td_None option.distinct(1))
  have k: "td_key row = (td_task_id row, td_student_id row)"
    by (simp add: td_key_def)
  from h show "length (task_details (upsert_task_detail row f d)) = length (task_details d)"
    by (simp add: upsert_task_detail_def Let_def)
  from find_map_update [of td_key "td_key row" "task_details d" r f] assms h
  show "lookup_td (td_task_id row) (td_student_id row) (upsert_task_detail row f d) = Some (f r)"
    by (simp add: upsert_task_detail_def Let_def lookup_td_def k)
qed

lemma filter_map_other:
  assumes "\<And>x. g (f x) = g x"
  shows "filter (\<lambda>r. g r \<noteq> k) (map (\<lambda>x. if g x = k then f x else x) xs) =
     filter (\<lambda>r. g r \<noteq> k) xs"
  using assms by (induction xs) auto

lemma upsert_other_rows:
  assumes "\<And>x. td_key (f x) = td_key x"
  shows "filter (\<lambda>r. td_key r \<noteq> td_key row) (task_details (upsert_task_detail row f d)) =
     filter (\<lambda>r. td_key r \<noteq> td_key row) (task_details d)"
  using filter_map_other [of td_key f "td_key row" "task_details d"] assms
  by (simp add: upsert_task_detail_def Let_def td_key_def)

lemma map_key_update:
  assumes "\<And>x. g (f x) = g x"
  shows "map g (map (\<lambda>x. if g x = k then f x else x) xs) = map g xs"
  using assms by (induction xs) auto

lemma upsert_keys:
  assumes "has_td (td_task_id row) (td_student_id row) d" and "\<And>x. td_key (f x) = td_key x"
  shows "map td_key (task_details (upsert_task_detail row f d)) = map td_key (task_details d)"
proof -
  from assms(1) have "task_details (upsert_task_detail row f d) =
      map (\<lambda>r. if td_key r = td_key row then f r else r) (task_details d)"
    by (simp add: upsert_task_detail_def Let_def)
  then show ?thesis
    by (simp only: map_key_update [of td_key f, OF assms(2)])
qed

lemma upsert_inv:
  assumes "db_inv d" and "\<And>x. td_key (f x) = td_key x"
  shows "db_inv (upsert_task_detail row f d)"
proof (cases "has_td (td_task_id row) (td_student_id row) d")
  case True
  from upsert_keys [OF True assms(2)] assms(1) show ?thesis
    by (simp add: db_inv_def upsert_frame)
next
  case False
  with assms show ?thesis
    by (simp add: db_inv_def upsert_task_detail_def Let_def has_td_def td_key_def)
qed

lemma upsert_has_td:
  assumes "\<And>x. td_key (f x) = td_key x"
  shows "has_td (td_task_id row) (td_student_id row) (upsert_task_detail row f d)"
proof (cases "has_td (td_task_id row) (td_student_id row) d")
  case True
  from upsert_keys [OF True assms] True show ?thesis
    by (simp add: has_td_def)
next
  case False
  then show ?thesis
    by (simp add: upsert_task_detail_def Let_def has_td_def td_key_def)
qed

subsection \<open>The listing of a task\<close>

lemma join_student_inv:
  assumes "distinct (map td_key (task_details d))"
  shows "join_student task_id d s = [(s, lookup_td task_id (s_student_id s) d)]"
proof -
  have "(\<lambda>td. s_student_id s = td_student_id td \<and> td_task_id td = task_id) =
      (\<lambda>td. td_key td = (task_id, s_student_id s))"
    by (auto simp: td_key_def)
  with lookup_td_rows [OF assms, of task_id "s_student_id s"] show ?thesis
    by (simp add: join_student_def split: option.splits)
qed

lemma join_student_fst: "p \<in> set (join_student task_id d s) \<Longrightarrow> fst p = s"
  by (cases "filter (\<lambda>td. s_student_id s = td_student_id td \<and> td_task_id td = task_id)
        (task_details d)") (auto simp: join_student_def)

lemma left_join_td_inv:
  assumes "distinct (map td_key (task_details d))"
  shows "left_join_td task_id d =
     map (\<lambda>s. (s, lookup_td task_id (s_student_id s) d)) (students d)"
proof -
  have "join_student task_id d = (\<lambda>s. [(s, lookup_td task_id (s_student_id s) d)])"
    by (rule ext) (rule join_student_inv [OF assms])
  then show ?thesis
    by (simp add: left_join_td_def concat_map_singleton)
qed

lemma find_append_None:
  "find P xs = None \<Longrightarrow> find P (xs @ ys) = find P ys"
  by (induction xs) (auto split: if_splits)

lemma select_task_details_row:
  assumes "db_inv d" and "s \<in> set (students d)"
  shows "filter (\<lambda>x. d_student_id x = s_student_id s) (select_task_details task_id d) =
     [detail_of (s, lookup_td task_id (s_student_id s) d)]"
proof -
  from assms(1) have dk: "distinct (map td_key (task_details d))"
    and ds: "distinct (map s_student_id (students d))"
    by (simp_all add: db_inv_def)
  let ?L = "\<lambda>s. (s, lookup_td task_id (s_student_id s) d)"
  let ?P = "\<lambda>p :: student \<times> task_detail option. s_student_id (fst p) = s_student_id s"
  have "filter (\<lambda>x. d_student_id x = s_student_id s) (select_task_details task_id d) =
      map detail_of (filter ?P (sort_key (\<lambda>p. by_class_id (fst p)) (left_join_td task_id d)))"
    by (simp add: select_task_details_def filter_map comp_def detail_of_def split_def)
  also have "filter ?P (sort_key (\<lambda>p. by_class_id (fst p)) (left_join_td task_id d)) =
      sort_key (\<lambda>p. by_class_id (fst p)) (filter ?P (left_join_td task_id d))"
    by (rule filter_sort)
  also have "filter ?P (left_join_td task_id d) =
      map ?L (filter (\<lambda>y. s_student_id y = s_student_id s) (students d))"
    by (simp add: left_join_td_inv [OF dk] filter_map comp_def)
  also have "filter (\<lambda>y. s_student_id y = s_student_id s) (students d) = [s]"
    by (rule filter_key_single [OF ds assms(2)])
  finally show ?thesis by simp
qed

lemma select_task_details_absent:
  assumes "sid \<notin> set (map s_student_id (students d))"
  shows "filter (\<lambda>x. d_student_id x = sid) (select_task_details task_id d) = []"
proof -
  have "fst p \<in> set (students d)" if "p \<in> set (left_join_td task_id d)" for p
    using that by (auto simp: left_join_td_def dest: join_student_fst)
  with assms have "\<forall>p \<in> set (left_join_td task_id d). s_student_id (fst p) \<noteq> sid"
    by (metis imageI list.set_map)
  then show ?thesis
    by (auto simp: select_task_details_def filter_empty_conv detail_of_def split_def)
qed

lemma get_task_details_row:
  assumes "db_inv d" and "s \<in> set (students d)"
    and "lookup_td task_id (s_student_id s) d = Some r"
  shows "\<exists>rows d'. get_task_details task_id now d = Inr (rows, d') \<and>
     filter (\<lambda>x. d_student_id x = s_student_id s) rows = [detail_of (s, Some r)]"
proof -
  from assms(1) have "distinct (map s_student_id (students d))"
    by (simp add: db_inv_def)
  from ensure_task_students_ok [OF this] obtain d' where
    e: "ensure_task_students task_id now d = Inr d'" by blast
  from ensure_task_students_Inr [OF e] obtain new where
    f: "students d' = students d" "task_details d' = task_details d @ new" by blast
  have i: "db_inv d'" by (rule ensure_task_students_inv [OF assms(1) e])
  have l: "lookup_td task_id (s_student_id s) d' = Some r"
    by (rule lookup_td_append [OF f(2) assms(3)])
  from assms(2) f(1) have "s \<in> set (students d')" by simp
  from select_task_details_row [OF i this, of task_id] l e show ?thesis
    by (simp add: get_task_details_def)
qed

subsection \<open>\<^verbatim>\<open>submit_student\<close> and \<^verbatim>\<open>set_grade\<close>\<close>

lemma submit_student_key: "td_key (r\<lparr>td_status := st, td_updated_at := now\<rparr>) = td_key r"
  by (simp add: td_key_def)

lemma set_grade_key:
  "td_key (r\<lparr>td_grade := g, td_status := st, td_updated_at := now\<rparr>) = td_key r"
  by (simp add: td_key_def)

text \<open>
  Claim C5. For a student \<open>s\<close> of the roster, on a database that satisfies the constraints
  of the schema, \<^verbatim>\<open>submit_student(task_id, s)\<close> changes nothing but the row of the pair:
  \<^verbatim>\<open>students\<close>, \<^verbatim>\<open>tasks\<close> and the rows of other pairs stay. Where the pair had a row,
  that row keeps its grade and gets status \<^verbatim>\<open>submitted\<close>; where it had none, one row is
  added, \<^verbatim>\<open>submitted\<close> and without a grade. \<^verbatim>\<open>get_task_details(task_id)\<close> after it
  returns and lists \<open>s\<close> exactly once, with status \<^verbatim>\<open>submitted\<close> and with the grade the
  pair had before: none if none was set.
\<close>

theorem submit_student_then_task_details:
  assumes "db_inv d" and "s \<in> set (students d)" and "sid = s_student_id s"
    and "d1 = submit_student task_id sid now d"
  shows "students d1 = students d \<and> tasks d1 = tasks d \<and>
     filter (\<lambda>r. td_key r \<noteq> (task_id, sid)) (task_details d1) =
       filter (\<lambda>r. td_key r \<noteq> (task_id, sid)) (task_details d) \<and>
     (case lookup_td task_id sid d of
        Some r \<Rightarrow>
          length (task_details d1) = length (task_details d) \<and>
          lookup_td task_id sid d1 = Some (r\<lparr>td_status := ''submitted'', td_updated_at := now\<rparr>)
      | None \<Rightarrow>
          (\<exists>rid. task_details d1 = task_details d @
             [\<lparr>td_id = rid, td_task_id = task_id, td_student_id = sid,
               td_status = ''submitted'', td_grade = None, td_updated_at = now\<rparr>])) \<and>
     (\<exists>rows d2.
        get_task_details task_id now' d1 = Inr (rows, d2) \<and>
        filter (\<lambda>x. d_student_id x = sid) rows =
          [\<lparr>d_student_id = sid, d_name = s_name s, d_class = s_class s,
            d_status = ''submitted'',
            d_grade = (case lookup_td task_id sid d of None \<Rightarrow> None | Some r \<Rightarrow> td_grade r)\<rparr>])"
proof -
  let ?row = "\<lparr>td_id = 0, td_task_id = task_id, td_student_id = sid,
      td_status = ''submitted'', td_grade = None, td_updated_at = now\<rparr>"
  let ?f = "\<lambda>r. r\<lparr>td_status := ''submitted'', td_updated_at := now\<rparr>"
  have d1: "d1 = upsert_task_detail ?row ?f d"
    using assms(4) by (simp add: submit_student_def)
  have key: "\<And>x. td_key (?f x) = td_key x" by (rule submit_student_key)
  have k: "td_key ?row = (task_id, sid)" by (simp add: td_key_def)
  have fr: "students d1 = students d" "tasks d1 = tasks d"
    using upsert_frame [of ?row ?f d] by (simp_all add: d1)
  have others: "filter (\<lambda>r. td_key r \<noteq> (task_id, sid)) (task_details d1) =
       filter (\<lambda>r. td_key r \<noteq> (task_id, sid)) (task_details d)"
    using upsert_other_rows [of ?f ?row d, OF key] by (simp add: d1 k)
  have inv: "db_inv d1"
    unfolding d1 by (rule upsert_inv [OF assms(1) key])
  have s1: "s \<in> set (students d1)" using assms(2) fr by simp
  show ?thesis
  proof (cases "lookup_td task_id sid d")
    case None
    from upsert_new [of ?row d ?f] None
    have t: "task_details d1 = task_details d @
        [\<lparr>td_id = new_rowid (seq_task_details d) (map td_id (task_details d)),
          td_task_id = task_id, td_student_id = sid, td_status = ''submitted'',
          td_grade = None, td_updated_at = now\<rparr>]"
      by (simp add: d1)
    let ?r = "\<lparr>td_id = new_rowid (seq_task_details d) (map td_id (task_details d)),
          td_task_id = task_id, td_student_id = sid, td_status = ''submitted'',
          td_grade = None, td_updated_at = now\<rparr>"
    from None have "find (\<lambda>r. td_key r = (task_id, sid)) (task_details d) = None"
      by (simp add: lookup_td_def)
    then have l1: "lookup_td task_id sid d1 = Some ?r"
      by (simp add: lookup_td_def t find_append_None td_key_def)
    from get_task_details_row [OF inv s1, of task_id ?r now'] l1 assms(3)
    obtain rows d2 where
      "get_task_details task_id now' d1 = Inr (rows, d2)"
      "filter (\<lambda>x. d_student_id x = sid) rows = [detail_of (s, Some ?r)]"
      by auto
    with None fr others t assms(3) show ?thesis
      by (auto simp: detail_of_def)
  next
    case (Some r)
    from upsert_old [of ?row d r ?f] Some key
    have l1: "lookup_td task_id sid d1 = Some (?f r)"
      and len: "length (task_details d1) = length (task_details d)"
      by (simp_all add: d1)
    from get_task_details_row [OF inv s1, of task_id "?f r" now'] l1 assms(3)
    obtain rows d2 where
      "get_task_details task_id now' d1 = Inr (rows, d2)"
      "filter (\<lambda>x. d_student_id x = sid) rows = [detail_of (s, Some (?f r))]"
      by auto
    with Some fr others l1 len assms(3) show ?thesis
      by (auto simp: detail_of_def)
  qed
qed

lemma zhang_in_example:
  "\<lparr>s_id = 1, s_student_id = ''202301'', s_name = ''Zhang'', s_class = ''2023'',
    s_created_at = ''2026-03-01 08:00:00''\<rparr> \<in> set (students db_example)"
  by (simp add: db_example_def)

lemma li_in_example:
  "\<lparr>s_id = 2, s_student_id = ''202302'', s_name = ''Li'', s_class = ''2023'',
    s_created_at = ''2026-03-01 08:00:05''\<rparr> \<in> set (students db_example)"
  by (simp add: db_example_def)

lemma lookup_zhang_example:
  "lookup_td 1 ''202301'' db_example =
     Some \<lparr>td_id = 1, td_task_id = 1, td_student_id = ''202301'', td_status = ''submitted'',
           td_grade = Some ''A'', td_updated_at = ''2026-03-02 09:00:00''\<rparr>"
  by (simp add: lookup_td_def db_example_def td_key_def)

lemma lookup_li_example: "lookup_td 1 ''202302'' db_example = None"
  by (simp add: lookup_td_def db_example_def td_key_def)

theorem submit_student_then_task_details_witness:
  "db_inv db_example \<and>
   lookup_td 1 ''202301'' (submit_student 1 ''202301'' ''2026-03-02 10:00:00'' db_example) =
     Some \<lparr>td_id = 1, td_task_id = 1, td_student_id = ''202301'', td_status = ''submitted'',
           td_grade = Some ''A'', td_updated_at = ''2026-03-02 10:00:00''\<rparr> \<and>
   (\<exists>rows d2.
      get_task_details 1 ''2026-03-02 10:01:00''
        (submit_student 1 ''202301'' ''2026-03-02 10:00:00'' db_example) = Inr (rows, d2) \<and>
      filter (\<lambda>x. d_student_id x = ''202301'') rows =
        [\<lparr>d_student_id = ''202301'', d_name = ''Zhang'', d_class = ''2023'',
          d_status = ''submitted'', d_grade = Some ''A''\<rparr>]) \<and>
   (\<exists>rows d2.
      get_task_details 1 ''2026-03-02 10:01:00''
        (submit_student 1 ''202302'' ''2026-03-02 10:00:00'' db_example) = Inr (rows, d2) \<and>
      filter (\<lambda>x. d_student_id x = ''202302'') rows =
        [\<lparr>d_student_id = ''202302'', d_name = ''Li'', d_class = ''2023'',
          d_status = ''submitted'', d_grade = None\<rparr>])"
  using db_inv_example
    submit_student_then_task_details [OF db_inv_example zhang_in_example refl refl,
      of 1 "''2026-03-02 10:00:00''" "''2026-03-02 10:01:00''"]
    submit_student_then_task_details [OF db_inv_example li_in_example refl refl,
      of 1 "''2026-03-02 10:00:00''" "''2026-03-02 10:01:00''"]
  by (simp add: lookup_zhang_example lookup_li_example)

text \<open>
  Claim C6. For a student \<open>s\<close> of the roster and any grade \<open>g\<close>, on a database that
  satisfies the constraints of the schema, \<^verbatim>\<open>set_grade(task_id, s, g)\<close> changes nothing
  but the row of the pair. Where the pair had a row, whatever its status and grade, that
  row gets status \<^verbatim>\<open>submitted\<close> and grade \<open>g\<close>; where it had none, one row is added,
  \<^verbatim>\<open>submitted\<close> and with grade \<open>g\<close>. \<^verbatim>\<open>get_task_details(task_id)\<close> after it returns and
  lists \<open>s\<close> exactly once, with status \<^verbatim>\<open>submitted\<close> and grade \<open>g\<close>.
\<close>

theorem set_grade_then_task_details:
  assumes "db_inv d" and "s \<in> set (students d)" and "sid = s_student_id s"
    and "d1 = set_grade task_id sid g now d"
  shows "students d1 = students d \<and> tasks d1 = tasks d \<and>
     filter (\<lambda>r. td_key r \<noteq> (task_id, sid)) (task_details d1) =
       filter (\<lambda>r. td_key r \<noteq> (task_id, sid)) (task_details d) \<and>
     (case lookup_td task_id sid d of
        Some r \<Rightarrow>
          length (task_details d1) = length (task_details d) \<and>
          lookup_td task_id sid d1 =
            Some (r\<lparr>td_grade := g, td_status := ''submitted'', td_updated_at := now\<rparr>)
      | None \<Rightarrow>
          (\<exists>rid. task_details d1 = task_details d @
             [\<lparr>td_id = rid, td_task_id = task_id, td_student_id = sid,
               td_status = ''submitted'', td_grade = g, td_updated_at = now\<rparr>])) \<and>
     (\<exists>rows d2.
        get_task_details task_id now' d1 = Inr (rows, d2) \<and>
        filter (\<lambda>x. d_student_id x = sid) rows =
          [\<lparr>d_student_id = sid, d_name = s_name s, d_class = s_class s,
            d_status = ''submitted'', d_grade = g\<rparr>])"
proof -
  let ?row = "\<lparr>td_id = 0, td_task_id = task_id, td_student_id = sid,
      td_status = ''submitted'', td_grade = g, td_updated_at = now\<rparr>"
  let ?f = "\<lambda>r. r\<lparr>td_grade := g, td_status := ''submitted'', td_updated_at := now\<rparr>"
  have d1: "d1 = upsert_task_detail ?row ?f d"
    using assms(4) by (simp add: set_grade_def)
  have key: "\<And>x. td_key (?f x) = td_key x" by (rule set_grade_key)
  have k: "td_key ?row = (task_id, sid)" by (simp add: td_key_def)
  have fr: "students d1 = students d" "tasks d1 = tasks d"
    using upsert_frame [of ?row ?f d] by (simp_all add: d1)
  have others: "filter (\<lambda>r. td_key r \<noteq> (task_id, sid)) (task_details d1) =
       filter (\<lambda>r. td_key r \<noteq> (task_id, sid)) (task_details d)"
    using upsert_other_rows [of ?f ?row d, OF key] by (simp add: d1 k)
  have inv: "db_inv d1"
    unfolding d1 by (rule upsert_inv [OF assms(1) key])
  have s1: "s \<in> set (students d1)" using assms(2) fr by simp
  show ?thesis
  proof (cases "lookup_td task_id sid d")
    case None
    let ?r = "\<lparr>td_id = new_rowid (seq_task_details d) (map td_id (task_details d)),
          td_task_id = task_id, td_student_id = sid, td_status = ''submitted'',
          td_grade = g, td_updated_at = now\<rparr>"
    from upsert_new [of ?row d ?f] None
    have t: "task_details d1 = task_details d @ [?r]"
      by (simp add: d1)
    from None have "find (\<lambda>r. td_key r = (task_id, sid)) (task_details d) = None"
      by (simp add: lookup_td_def)
    then have l1: "lookup_td task_id sid d1 = Some ?r"
      by (simp add: lookup_td_def t find_append_None td_key_def)
    from get_task_details_row [OF inv s1, of task_id ?r now'] l1 assms(3)
    obtain rows d2 where
      "get_task_details task_id now' d1 = Inr (rows, d2)"
      "filter (\<lambda>x. d_student_id x = sid) rows = [detail_of (s, Some ?r)]"
      by auto
    with None fr others t assms(3) show ?thesis
      by (auto simp: detail_of_def)
  next
    case (Some r)
    from upsert_old [of ?row d r ?f] Some key
    have l1: "lookup_td task_id sid d1 = Some (?f r)"
      and len: "length (task_details d1) = length (task_details d)"
      by (simp_all add: d1)
    from get_task_details_row [OF inv s1, of task_id "?f r" now'] l1 assms(3)
    obtain rows d2 where
      "get_task_details task_id now' d1 = Inr (rows, d2)"
      "filter (\<lambda>x. d_student_id x = sid) rows = [detail_of (s, Some (?f r))]"
      by auto
    with Some fr others l1 len assms(3) show ?thesis
      by (auto simp: detail_of_def)
  qed
qed

theorem set_grade_then_task_details_witness:
  "db_inv db_example \<and>
   \<lparr>s_id = 1, s_student_id = ''202301'', s_name = ''Zhang'', s_class = ''2023'',
    s_created_at = ''2026-03-01 08:00:00''\<rparr> \<in> set (students db_example) \<and>
   lookup_td 1 ''202301''
       (set_grade 1 ''202301'' (Some ''B'') ''2026-03-02 10:00:00'' db_example) =
     Some \<lparr>td_id = 1, td_task_id = 1, td_student_id = ''202301'', td_status = ''submitted'',
           td_grade = Some ''B'', td_updated_at = ''2026-03-02 10:00:00''\<rparr> \<and>
   (\<exists>rows d2.
      get_task_details 1 ''2026-03-02 10:01:00''
        (set_grade 1 ''202301'' (Some ''B'') ''2026-03-02 10:00:00'' db_example) =
          Inr (rows, d2) \<and>
      filter (\<lambda>x. d_student_id x = ''202301'') rows =
        [\<lparr>d_student_id = ''202301'', d_name = ''Zhang'', d_class = ''2023'',
          d_status = ''submitted'', d_grade = Some ''B''\<rparr>])"
  using db_inv_example zhang_in_example
    set_grade_then_task_details [OF db_inv_example zhang_in_example refl refl,
      of 1 "Some ''B''" "''2026-03-02 10:00:00''" "''2026-03-02 10:01:00''"]
  by (simp add: lookup_zhang_example)

text \<open>
  Claim C7, as stated, fails: \<^verbatim>\<open>999999\<close> is not in the roster of the example, and
  \<^verbatim>\<open>submit_student\<close> for it changes the database: it adds a row to \<^verbatim>\<open>task_details\<close>.
\<close>

theorem submit_student_unknown_counterexample:
  "''999999'' \<notin> set (map s_student_id (students db_example)) \<and>
   submit_student 1 ''999999'' ''2026-03-02 10:00:00'' db_example \<noteq> db_example \<and>
   task_details (submit_student 1 ''999999'' ''2026-03-02 10:00:00'' db_example) =
     task_details db_example @
       [\<lparr>td_id = 2, td_task_id = 1, td_student_id = ''999999'', td_status = ''submitted'',
         td_grade = None, td_updated_at = ''2026-03-02 10:00:00''\<rparr>]"
proof -
  have t: "task_details (submit_student 1 ''999999'' ''2026-03-02 10:00:00'' db_example) =
     task_details db_example @
       [\<lparr>td_id = 2, td_task_id = 1, td_student_id = ''999999'', td_status = ''submitted'',
         td_grade = None, td_updated_at = ''2026-03-02 10:00:00''\<rparr>]"
    by (simp add: submit_student_def upsert_task_detail_def has_td_def td_key_def
        new_rowid_def db_example_def)
  then have "submit_student 1 ''999999'' ''2026-03-02 10:00:00'' db_example \<noteq> db_example"
    by (metis append_self_conv not_Cons_self2)
  moreover have "''999999'' \<notin> set (map s_student_id (students db_example))"
    by (simp add: db_example_def)
  ultimately show ?thesis using t by blast
qed

text \<open>
  Claim C7, amended. For a \<open>sid\<close> that is not in \<^verbatim>\<open>students\<close>,
  \<^verbatim>\<open>submit_student(task_id, sid)\<close> raises nothing and leaves \<^verbatim>\<open>students\<close>, \<^verbatim>\<open>tasks\<close>
  and the rows of other pairs as they were, but it is not a no-op: it upserts the row of
  the pair as it does for a student of the roster. Where the pair had no row, a row with
  status \<^verbatim>\<open>submitted\<close> and no grade is added; where it had one, that row gets status
  \<^verbatim>\<open>submitted\<close>. \<^verbatim>\<open>get_task_details(task_id)\<close>, which lists the students of the roster,
  does not show the row.
\<close>

theorem submit_student_unknown_student:
  assumes "db_inv d" and "sid \<notin> set (map s_student_id (students d))"
    and "d1 = submit_student task_id sid now d"
  shows "students d1 = students d \<and> tasks d1 = tasks d \<and>
     filter (\<lambda>r. td_key r \<noteq> (task_id, sid)) (task_details d1) =
       filter (\<lambda>r. td_key r \<noteq> (task_id, sid)) (task_details d) \<and>
     has_td task_id sid d1 \<and>
     (case lookup_td task_id sid d of
        Some r \<Rightarrow>
          lookup_td task_id sid d1 = Some (r\<lparr>td_status := ''submitted'', td_updated_at := now\<rparr>)
      | None \<Rightarrow>
          (\<exists>rid. task_details d1 = task_details d @
             [\<lparr>td_id = rid, td_task_id = task_id, td_student_id = sid,
               td_status = ''submitted'', td_grade = None, td_updated_at = now\<rparr>])) \<and>
     (\<exists>rows d2.
        get_task_details task_id now' d1 = Inr (rows, d2) \<and>
        filter (\<lambda>x. d_student_id x = sid) rows = [])"
proof -
  let ?row = "\<lparr>td_id = 0, td_task_id = task_id, td_student_id = sid,
      td_status = ''submitted'', td_grade = None, td_updated_at = now\<rparr>"
  let ?f = "\<lambda>r. r\<lparr>td_status := ''submitted'', td_updated_at := now\<rparr>"
  have d1: "d1 = upsert_task_detail ?row ?f d"
    using assms(3) by (simp add: submit_student_def)
  have key: "\<And>x. td_key (?f x) = td_key x" by (rule submit_student_key)
  have k: "td_key ?row = (task_id, sid)" by (simp add: td_key_def)
  have fr: "students d1 = students d" "tasks d1 = tasks d"
    using upsert_frame [of ?row ?f d] by (simp_all add: d1)
  have others: "filter (\<lambda>r. td_key r \<noteq> (task_id, sid)) (task_details d1) =
       filter (\<lambda>r. td_key r \<noteq> (task_id, sid)) (task_details d)"
    using upsert_other_rows [of ?f ?row d, OF key] by (simp add: d1 k)
  have h: "has_td task_id sid d1"
    using upsert_has_td [of ?f ?row d, OF key] by (simp add: d1)
  have inv: "db_inv d1"
    unfolding d1 by (rule upsert_inv [OF assms(1) key])
  then have "distinct (map s_student_id (students d1))"
    by (simp add: db_inv_def)
  from ensure_task_students_ok [OF this] obtain d2 where
    e: "ensure_task_students task_id now' d1 = Inr d2" by blast
  from ensure_task_students_Inr [OF e] have "students d2 = students d" by (simp add: fr)
  with assms(2) have "sid \<notin> set (map s_student_id (students d2))" by simp
  from select_task_details_absent [OF this, of task_id] e
  have g: "\<exists>rows d2. get_task_details task_id now' d1 = Inr (rows, d2) \<and>
        filter (\<lambda>x. d_student_id x = sid) rows = []"
    by (simp add: get_task_details_def)
  have "case lookup_td task_id sid d of
        Some r \<Rightarrow>
          lookup_td task_id sid d1 = Some (r\<lparr>td_status := ''submitted'', td_updated_at := now\<rparr>)
      | None \<Rightarrow>
          (\<exists>rid. task_details d1 = task_details d @
             [\<lparr>td_id = rid, td_task_id = task_id, td_student_id = sid,
               td_status = ''submitted'', td_grade = None, td_updated_at = now\<rparr>])"
  proof (cases "lookup_td task_id sid d")
    case None
    from upsert_new [of ?row d ?f] None show ?thesis
      by (simp add: d1)
  next
    case (Some r)
    from upsert_old(1) [of ?row d r ?f] Some key show ?thesis
      by (simp add: d1)
  qed
  with fr others h g show ?thesis by blast
qed

theorem submit_student_unknown_student_witness:
  "db_inv db_example \<and> ''999999'' \<notin> set (map s_student_id (students db_example)) \<and>
   has_td 1 ''999999'' (submit_student 1 ''999999'' ''2026-03-02 10:00:00'' db_example) \<and>
   students (submit_student 1 ''999999'' ''2026-03-02 10:00:00'' db_example) =
     students db_example \<and>
   (\<exists>rows d2.
      get_task_details 1 ''2026-03-02 10:01:00''
        (submit_student 1 ''999999'' ''2026-03-02 10:00:00'' db_example) = Inr (rows, d2) \<and>
      filter (\<lambda>x. d_student_id x = ''999999'') rows = [])"
proof -
  have n: "''999999'' \<notin> set (map s_student_id (students db_example))"
    by (simp add: db_example_def)
  from submit_student_unknown_student [OF db_inv_example n refl,
      of 1 "''2026-03-02 10:00:00''" "''2026-03-02 10:01:00''"] db_inv_example n
  show ?thesis by blast
qed

subsection \<open>\<^verbatim>\<open>delete_student\<close> and the history\<close>

lemma length_order_by_date_desc: "length (order_by_date_desc ts) = length ts"
  by (simp add: order_by_date_desc_def)

lemma history_rows_none:
  assumes "\<forall>r \<in> set (task_details d). td_student_id r \<noteq> sid"
  shows "history_rows sid d t =
     [\<lparr>h_task_id = t_id t, h_date = t_date t, h_task_name = t_name t,
       h_status = None, h_grade = None\<rparr>]"
proof -
  from assms have "filter (\<lambda>td. t_id t = td_task_id td \<and> td_student_id td = sid)
      (task_details d) = []"
    by (simp add: filter_empty_conv)
  then show ?thesis by (simp add: history_rows_def)
qed

text \<open>
  Claim C4, as stated, fails: after the deletion of the student \<^verbatim>\<open>202301\<close> of the
  example, whose submission for the one task was recorded, the history of \<^verbatim>\<open>202301\<close> is
  not empty. It has a row for the task, with no status and no grade.
\<close>

theorem delete_student_history_counterexample:
  "get_student_history ''202301'' (delete_student ''202301'' db_example) =
     [\<lparr>h_task_id = 1, h_date = ''2026-03-02'', h_task_name = ''hw-2026-03-02'',
       h_status = None, h_grade = None\<rparr>] \<and>
   get_student_history ''202301'' (delete_student ''202301'' db_example) \<noteq> []"
  by (simp add: get_student_history_def delete_student_def db_example_def
      order_by_date_desc_def history_rows_def)

text \<open>
  Claim C4, amended. \<^verbatim>\<open>delete_student(sid)\<close> removes every row of \<open>sid\<close> from
  \<^verbatim>\<open>task_details\<close> and leaves \<^verbatim>\<open>tasks\<close> as it was. \<^verbatim>\<open>get_student_history(sid)\<close> after
  it holds no submission: it returns one row for every task, in the order of the query,
  each with status and grade \<^verbatim>\<open>NULL\<close>; so it has as many rows as there are tasks, and is
  the empty list exactly when there is no task.
\<close>

theorem delete_student_history:
  "filter (\<lambda>r. td_student_id r = sid) (task_details (delete_student sid d)) = [] \<and>
   tasks (delete_student sid d) = tasks d \<and>
   get_student_history sid (delete_student sid d) =
     map (\<lambda>t. \<lparr>h_task_id = t_id t, h_date = t_date t, h_task_name = t_name t,
                h_status = None, h_grade = None\<rparr>) (order_by_date_desc (tasks d)) \<and>
   length (get_student_history sid (delete_student sid d)) = length (tasks d) \<and>
   (get_student_history sid (delete_student sid d) = [] \<longleftrightarrow> tasks d = [])"
proof -
  let ?d = "delete_student sid d"
  have gone: "\<forall>r \<in> set (task_details ?d). td_student_id r \<noteq> sid"
    by (simp add: delete_student_def Let_def)
  then have a: "filter (\<lambda>r. td_student_id r = sid) (task_details ?d) = []"
    by (simp add: filter_empty_conv)
  have b: "tasks ?d = tasks d"
    by (simp add: delete_student_def Let_def)
  have "history_rows sid ?d = (\<lambda>t. [\<lparr>h_task_id = t_id t, h_date = t_date t,
      h_task_name = t_name t, h_status = None, h_grade = None\<rparr>])"
    by (rule ext) (rule history_rows_none [OF gone])
  then have c: "get_student_history sid ?d =
     map (\<lambda>t. \<lparr>h_task_id = t_id t, h_date = t_date t, h_task_name = t_name t,
                h_status = None, h_grade = None\<rparr>) (order_by_date_desc (tasks d))"
    by (simp add: get_student_history_def b concat_map_singleton)
  then have e: "length (get_student_history sid ?d) = length (tasks d)"
    by (simp add: length_order_by_date_desc)
  then have "get_student_history sid ?d = [] \<longleftrightarrow> tasks d = []"
    by (metis length_0_conv)
  with a b c e show ?thesis by blast
qed

subsection \<open>What the queries write\<close>

lemma ensure_task_students_backfilled:
  assumes "ensure_task_students task_id now d = Inr d'"
  shows "backfilled task_id d d' \<and> tasks d' = tasks d"
proof -
  from ensure_task_students_Inr [OF assms] obtain new where
    "students d' = students d" "tasks d' = tasks d" "task_details d' = task_details d @ new"
    "\<forall>r \<in> set new. td_task_id r = task_id \<and> td_status r = ''missing'' \<and> td_grade r = None \<and>
       td_updated_at r = now"
    by blast
  then show ?thesis
    by (simp add: backfilled_def list_all_iff)
qed

lemma order_by_date_desc_Nil: "order_by_date_desc ts = [] \<longleftrightarrow> ts = []"
  by (metis length_order_by_date_desc length_0_conv)

lemma get_current_task_effect:
  "students (snd (get_current_task day now d)) = students d \<and>
   task_details (snd (get_current_task day now d)) = task_details d \<and>
   tasks (snd (get_current_task day now d)) =
     (if tasks d = []
      then [\<lparr>t_id = new_rowid (seq_tasks d) [], t_name = task_name_for day, t_date = day,
              t_created_at = now\<rparr>]
      else tasks d)"
proof (cases "tasks d = []")
  case True
  then show ?thesis
    by (simp add: get_current_task_def order_by_date_desc_def get_or_create_today_task_def
        Let_def)
next
  case False
  then have "order_by_date_desc (tasks d) \<noteq> []"
    by (simp add: order_by_date_desc_Nil)
  then obtain row rest where "order_by_date_desc (tasks d) = row # rest"
    by (cases "order_by_date_desc (tasks d)") auto
  with False show ?thesis
    by (simp add: get_current_task_def)
qed

text \<open>
  Claim C1, as stated, fails: in the example the student \<^verbatim>\<open>202302\<close> has no row under
  task 1, and \<^verbatim>\<open>get_task_details(1)\<close> adds one to \<^verbatim>\<open>task_details\<close> before it reads.
\<close>

theorem get_task_details_writes_counterexample:
  "get_task_details 1 ''2026-03-02 10:00:00'' db_example =
     Inr ([\<lparr>d_student_id = ''202301'', d_name = ''Zhang'', d_class = ''2023'',
             d_status = ''submitted'', d_grade = Some ''A''\<rparr>,
           \<lparr>d_student_id = ''202302'', d_name = ''Li'', d_class = ''2023'',
             d_status = ''missing'', d_grade = None\<rparr>],
          db_example\<lparr>task_details := task_details db_example @
             [\<lparr>td_id = 2, td_task_id = 1, td_student_id = ''202302'', td_status = ''missing'',
               td_grade = None, td_updated_at = ''2026-03-02 10:00:00''\<rparr>],
            seq_task_details := 2\<rparr>) \<and>
   task_details (db_example\<lparr>task_details := task_details db_example @
             [\<lparr>td_id = 2, td_task_id = 1, td_student_id = ''202302'', td_status = ''missing'',
               td_grade = None, td_updated_at = ''2026-03-02 10:00:00''\<rparr>],
            seq_task_details := 2\<rparr>) \<noteq> task_details db_example"
  by (simp add: get_task_details_def ensure_task_students_def td_rows_def Let_def
      insert_task_detail_def has_td_def td_key_def new_rowid_def db_example_def
      select_task_details_def left_join_td_def join_student_def detail_of_def by_class_id_def)

text \<open>
  Claim C1, amended. \<^verbatim>\<open>get_student_history\<close> reads only: it is a function of the
  database that returns rows and no database. The other four queries, on a database that
  satisfies the constraints of the schema, return and never change or remove a row of
  \<^verbatim>\<open>students\<close>, \<^verbatim>\<open>tasks\<close> or \<^verbatim>\<open>task_details\<close>, but they are not read-only:
  \<^verbatim>\<open>get_task_details\<close>, \<^verbatim>\<open>get_submitted_students\<close> and \<^verbatim>\<open>get_missing_students\<close> first
  run \<^verbatim>\<open>ensure_task_students\<close>, which may add rows with status \<^verbatim>\<open>missing\<close> and no grade
  under the task to \<^verbatim>\<open>task_details\<close>; \<^verbatim>\<open>get_today_stats\<close> does so for the current task,
  and where \<^verbatim>\<open>tasks\<close> is empty it first creates the task of the day.
\<close>

theorem queries_only_backfill:
  assumes "db_inv d"
  shows "(\<exists>rows d'. get_task_details task_id now d = Inr (rows, d') \<and>
            backfilled task_id d d' \<and> tasks d' = tasks d) \<and>
     (\<exists>rows d'. get_submitted_students task_id now d = Inr (rows, d') \<and>
            backfilled task_id d d' \<and> tasks d' = tasks d) \<and>
     (\<exists>rows d'. get_missing_students task_id class_name now d = Inr (rows, d') \<and>
            backfilled task_id d d' \<and> tasks d' = tasks d) \<and>
     (\<exists>stats d'. get_today_stats day now d = (Inr stats, d') \<and>
            backfilled (k_id (fst (get_current_task day now d))) d d' \<and>
            tasks d' =
              (if tasks d = []
               then [\<lparr>t_id = new_rowid (seq_tasks d) [], t_name = task_name_for day,
                       t_date = day, t_created_at = now\<rparr>]
               else tasks d))"
proof -
  from assms have ds: "distinct (map s_student_id (students d))"
    by (simp add: db_inv_def)
  from ensure_task_students_ok [OF ds] obtain d' where
    e: "ensure_task_students task_id now d = Inr d'" by blast
  note b = ensure_task_students_backfilled [OF e]
  have 1: "\<exists>rows d'. get_task_details task_id now d = Inr (rows, d') \<and>
            backfilled task_id d d' \<and> tasks d' = tasks d"
    using e b by (simp add: get_task_details_def)
  have 2: "\<exists>rows d'. get_submitted_students task_id now d = Inr (rows, d') \<and>
            backfilled task_id d d' \<and> tasks d' = tasks d"
    using e b by (simp add: get_submitted_students_def)
  have 3: "\<exists>rows d'. get_missing_students task_id class_name now d = Inr (rows, d') \<and>
            backfilled task_id d d' \<and> tasks d' = tasks d"
    using e b by (simp add: get_missing_students_def)
  obtain task d1 where c: "get_current_task day now d = (task, d1)"
    by (cases "get_current_task day now d") auto
  from get_current_task_effect [of day now d] c have
    f: "students d1 = students d" "task_details d1 = task_details d"
       "tasks d1 = (if tasks d = []
          then [\<lparr>t_id = new_rowid (seq_tasks d) [], t_name = task_name_for day,
                  t_date = day, t_created_at = now\<rparr>]
          else tasks d)"
    by simp_all
  from ds f(1) have "distinct (map s_student_id (students d1))" by simp
  from ensure_task_students_ok [OF this] obtain d2 where
    e2: "ensure_task_students (k_id task) now d1 = Inr d2" by blast
  from ensure_task_students_backfilled [OF e2] f
  have b2: "backfilled (k_id task) d d2" "tasks d2 = tasks d1"
    by (simp_all add: backfilled_def)
  have "\<exists>stats. get_today_stats day now d = (Inr stats, d2)"
    using c e2 by (simp add: get_today_stats_def get_task_details_def Let_def)
  with b2 f(3) c have 4: "\<exists>stats d'. get_today_stats day now d = (Inr stats, d') \<and>
            backfilled (k_id (fst (get_current_task day now d))) d d' \<and>
            tasks d' =
              (if tasks d = []
               then [\<lparr>t_id = new_rowid (seq_tasks d) [], t_name = task_name_for day,
                       t_date = day, t_created_at = now\<rparr>]
               else tasks d)"
    by auto
  from 1 2 3 4 show ?thesis by blast
qed

theorem queries_only_backfill_witness:
  "db_inv db_example \<and>
   (\<exists>rows d'. get_task_details 1 ''2026-03-02 10:00:00'' db_example = Inr (rows, d') \<and>
            backfilled 1 db_example d' \<and> tasks d' = tasks db_example) \<and>
   (\<exists>stats d'. get_today_stats ''2026-03-03'' ''2026-03-02 10:00:00'' db_example =
              (Inr stats, d') \<and>
            backfilled 1 db_example d' \<and> tasks d' = tasks db_example)"
proof -
  have "k_id (fst (get_current_task ''2026-03-03'' ''2026-03-02 10:00:00'' db_example)) = 1"
    by (simp add: get_current_task_def order_by_date_desc_def db_example_def dict_of_task_def)
  moreover have "tasks db_example \<noteq> []"
    by (simp add: db_example_def)
  ultimately show ?thesis
    using db_inv_example
      queries_only_backfill [OF db_inv_example, of 1 "''2026-03-02 10:00:00''" None
        "''2026-03-03''"]
    by simp
qed

subsection \<open>Decimal identifiers\<close>

lemma is_digit_range: "is_digit c \<Longrightarrow> 0 \<le> digit_val c \<and> digit_val c \<le> 9"
  by (auto simp: is_digit_def digit_val_def less_eq_char_def)

lemma is_digit_not_space: "is_digit c \<Longrightarrow> \<not> py_isspace c \<and> \<not> sqlite_isspace c"
  by (auto simp: is_digit_def py_isspace_def sqlite_isspace_def Let_def less_eq_char_def)

lemma is_digit_not_sign: "is_digit c \<Longrightarrow> c \<noteq> CHR ''-'' \<and> c \<noteq> CHR ''+'' \<and> c \<noteq> CHR ''_''"
  by (auto simp: is_digit_def less_eq_char_def)

lemma dropWhile_digits:
  "list_all is_digit s \<Longrightarrow> dropWhile py_isspace s = s \<and> dropWhile sqlite_isspace s = s"
  by (cases s) (auto simp: is_digit_not_space)

lemma py_strip_digits: "list_all is_digit s \<Longrightarrow> py_strip s = s"
proof -
  assume a: "list_all is_digit s"
  then have "list_all is_digit (rev s)" by (simp add: list_all_iff)
  with a show ?thesis
    by (simp add: py_strip_def dropWhile_digits)
qed

lemma split_sign_digits: "list_all is_digit s \<Longrightarrow> split_sign s = (False, s)"
  by (cases s) (auto simp: split_sign_def is_digit_not_sign)

lemma digits_us_digits: "list_all is_digit s \<Longrightarrow> digits_us s"
  by (induction s rule: digits_us.induct) auto

lemma filter_digits: "list_all is_digit s \<Longrightarrow> filter is_digit s = s"
  by (simp add: list_all_iff)

lemma takeWhile_digits: "list_all is_digit s \<Longrightarrow> takeWhile is_digit s = s"
  by (simp add: list_all_iff)

lemma py_int_digits:
  assumes "s \<noteq> []" and "list_all is_digit s"
  shows "py_int s = Inr (dec_value s)"
proof -
  from assms have "is_digit (hd s)" by (cases s) auto
  with assms show ?thesis
    by (simp add: py_int_def py_strip_digits split_sign_digits digits_us_digits filter_digits)
qed

lemma foldl_digits_bounds:
  "list_all is_digit s \<Longrightarrow> 0 \<le> n \<Longrightarrow>
     n * 10 ^ length s \<le> foldl (\<lambda>n c. 10 * n + digit_val c) n s \<and>
     foldl (\<lambda>n c. 10 * n + digit_val c) n s < (n + 1) * 10 ^ length s"
proof (induction s arbitrary: n)
  case Nil
  then show ?case by simp
next
  case (Cons c s)
  from Cons.prems have dc: "0 \<le> digit_val c" "digit_val c \<le> 9" and ds: "list_all is_digit s"
    by (simp_all add: is_digit_range)
  let ?m = "10 * n + digit_val c"
  from dc Cons.prems have m0: "0 \<le> ?m" by simp
  from Cons.IH [OF ds m0] have
    lo: "?m * 10 ^ length s \<le> foldl (\<lambda>n c. 10 * n + digit_val c) ?m s" and
    hi: "foldl (\<lambda>n c. 10 * n + digit_val c) ?m s < (?m + 1) * 10 ^ length s"
    by simp_all
  have "n * 10 ^ length (c # s) = (10 * n) * 10 ^ length s" by simp
  also have "\<dots> \<le> ?m * 10 ^ length s"
    using dc by (intro mult_right_mono) simp_all
  finally have a1: "n * 10 ^ length (c # s) \<le> ?m * 10 ^ length s" .
  have a: "n * 10 ^ length (c # s) \<le> foldl (\<lambda>n c. 10 * n + digit_val c) ?m s"
    by (rule order_trans [OF a1 lo])
  have "(?m + 1) * 10 ^ length s \<le> (10 * n + 10) * 10 ^ length s"
    using dc by (intro mult_right_mono) simp_all
  also have "\<dots> = (n + 1) * 10 ^ length (c # s)" by (simp add: algebra_simps)
  finally have b1: "(?m + 1) * 10 ^ length s \<le> (n + 1) * 10 ^ length (c # s)" .
  have b: "foldl (\<lambda>n c. 10 * n + digit_val c) ?m s < (n + 1) * 10 ^ length (c # s)"
    by (rule less_le_trans [OF hi b1])
  from a b show ?case by (simp del: power_Suc)
qed

lemma dec_value_bounds:
  "list_all is_digit s \<Longrightarrow> 0 \<le> dec_value s \<and> dec_value s < 10 ^ length s"
  using foldl_digits_bounds [of s 0] by (simp add: dec_value_def)

lemma numeric_id_int64:
  assumes "numeric_id s"
  shows "0 \<le> dec_value s \<and> dec_value s \<le> int64_max"
proof -
  from assms have d: "list_all is_digit s" and l: "length s \<le> 18"
    by (simp_all add: numeric_id_def)
  from dec_value_bounds [OF d] have "0 \<le> dec_value s" "dec_value s < 10 ^ length s"
    by simp_all
  moreover have "(10::int) ^ length s \<le> 10 ^ 18"
    using l by (intro power_increasing) simp_all
  ultimately show ?thesis
    by (simp add: int64_max_def)
qed

lemma sql_cast_integer_numeric:
  assumes "numeric_id s"
  shows "sql_cast_integer s = dec_value s"
proof -
  from assms have d: "list_all is_digit s" by (simp add: numeric_id_def)
  from numeric_id_int64 [OF assms] d show ?thesis
    by (simp add: sql_cast_integer_def dropWhile_digits split_sign_digits takeWhile_digits
        Let_def)
qed

text \<open>Digit strings of one length: the order of the text is the order of the numbers.\<close>

lemma dec_value_Cons:
  "dec_value (c # s) = foldl (\<lambda>n c. 10 * n + digit_val c) (digit_val c) s"
  by (simp add: dec_value_def)

lemma foldl_digits_shift:
  "foldl (\<lambda>n c. 10 * n + digit_val c) n s =
     n * 10 ^ length s + foldl (\<lambda>n c. 10 * n + digit_val c) 0 s"
proof (induction s arbitrary: n)
  case Nil
  then show ?case by simp
next
  case (Cons c s)
  have "foldl (\<lambda>n c. 10 * n + digit_val c) n (c # s) =
      (10 * n + digit_val c) * 10 ^ length s + foldl (\<lambda>n c. 10 * n + digit_val c) 0 s"
    using Cons.IH [of "10 * n + digit_val c"] by simp
  moreover have "foldl (\<lambda>n c. 10 * n + digit_val c) 0 (c # s) =
      digit_val c * 10 ^ length s + foldl (\<lambda>n c. 10 * n + digit_val c) 0 s"
    using Cons.IH [of "digit_val c"] by simp
  ultimately show ?case by (simp add: algebra_simps)
qed

lemma same_width_order:
  assumes "length a = length b" and "list_all is_digit a" and "list_all is_digit b"
    and "a \<le> b"
  shows "dec_value a \<le> dec_value b"
  using assms
proof (induction a b rule: list_induct2)
  case Nil
  then show ?case by simp
next
  case (Cons x xs y ys)
  from Cons.prems have dx: "is_digit x" "list_all is_digit xs"
    and dy: "is_digit y" "list_all is_digit ys" by simp_all
  from Cons.prems(3) have "x < y \<or> (x = y \<and> xs \<le> ys)"
    by (auto simp: less_eq_list_code)
  then show ?case
  proof
    assume "x < y"
    then have "digit_val x + 1 \<le> digit_val y"
      by (simp add: digit_val_def less_char_def)
    moreover from foldl_digits_bounds [OF dx(2), of "digit_val x"] is_digit_range [OF dx(1)]
    have "dec_value (x # xs) < (digit_val x + 1) * 10 ^ length xs"
      by (simp add: dec_value_Cons)
    moreover from foldl_digits_bounds [OF dy(2), of "digit_val y"] is_digit_range [OF dy(1)]
    have "digit_val y * 10 ^ length ys \<le> dec_value (y # ys)"
      by (simp add: dec_value_Cons)
    moreover have "(digit_val x + 1) * 10 ^ length xs \<le> digit_val y * (10::int) ^ length ys"
      using Cons.hyps calculation(1) by (simp add: mult_right_mono)
    ultimately show ?thesis by linarith
  next
    assume e: "x = y \<and> xs \<le> ys"
    have "foldl (\<lambda>n c. 10 * n + digit_val c) n xs \<le> foldl (\<lambda>n c. 10 * n + digit_val c) n ys"
      if "dec_value xs \<le> dec_value ys" for n
      using that Cons.hyps foldl_digits_shift [of n xs] foldl_digits_shift [of n ys]
      by (simp add: dec_value_def)
    with e Cons.IH dx dy show ?thesis
      by (simp add: dec_value_Cons)
  qed
qed

lemma get_students_by_id_range_rows:
  assumes "\<forall>s \<in> set (students d). numeric_id (s_student_id s)"
    and "numeric_id start_id" and "numeric_id end_id"
  shows "get_students_by_id_range start_id end_id d =
     Inr (sort_key s_student_id
       (filter (\<lambda>s. dec_value start_id \<le> dec_value (s_student_id s) \<and>
                     dec_value (s_student_id s) \<le> dec_value end_id) (students d)))"
proof -
  have p: "py_int start_id = Inr (dec_value start_id)" "py_int end_id = Inr (dec_value end_id)"
    using assms(2,3) by (simp_all add: numeric_id_def py_int_digits)
  have b: "bind_int64 (dec_value start_id) = Inr (dec_value start_id)"
    "bind_int64 (dec_value end_id) = Inr (dec_value end_id)"
    using numeric_id_int64 [OF assms(2)] numeric_id_int64 [OF assms(3)]
    by (simp_all add: bind_int64_def int64_min_def)
  have "filter (\<lambda>s. dec_value start_id \<le> sql_cast_integer (s_student_id s) \<and>
                     sql_cast_integer (s_student_id s) \<le> dec_value end_id) (students d) =
        filter (\<lambda>s. dec_value start_id \<le> dec_value (s_student_id s) \<and>
                     dec_value (s_student_id s) \<le> dec_value end_id) (students d)"
    using assms(1) by (intro filter_cong) (simp_all add: sql_cast_integer_numeric)
  with p b show ?thesis
    by (simp add: get_students_by_id_range_def)
qed

text \<open>
  Claim C9. On a roster whose identifiers are strings of decimal digits (at most 18,
  so that they fit SQLite's integers) and for bounds that are such strings,
  \<^verbatim>\<open>get_students_by_id_range(start_id, end_id)\<close> returns exactly the students whose
  identifier, read as a number, lies between the two bounds, both included: the same
  students, as often as the roster has them. The rows are in ascending order of the
  identifier, whatever the order in the table: \<^verbatim>\<open>ORDER BY student_id\<close> is the order of
  the text, and where all identifiers have one width \<open>w\<close>, as the six-digit codes of
  the program have, it is the order of the numbers too.
\<close>

theorem get_students_by_id_range_exact:
  assumes "\<forall>s \<in> set (students d). numeric_id (s_student_id s)"
    and "numeric_id start_id" and "numeric_id end_id"
  shows "\<exists>rows. get_students_by_id_range start_id end_id d = Inr rows \<and>
     set rows = {s \<in> set (students d).
        dec_value start_id \<le> dec_value (s_student_id s) \<and>
        dec_value (s_student_id s) \<le> dec_value end_id} \<and>
     length rows = length (filter (\<lambda>s. dec_value start_id \<le> dec_value (s_student_id s) \<and>
        dec_value (s_student_id s) \<le> dec_value end_id) (students d)) \<and>
     sorted (map s_student_id rows) \<and>
     ((\<forall>s \<in> set (students d). length (s_student_id s) = w) \<longrightarrow>
        sorted (map (\<lambda>s. dec_value (s_student_id s)) rows))"
proof -
  let ?P = "\<lambda>s. dec_value start_id \<le> dec_value (s_student_id s) \<and>
                dec_value (s_student_id s) \<le> dec_value end_id"
  let ?rows = "sort_key s_student_id (filter ?P (students d))"
  have r: "get_students_by_id_range start_id end_id d = Inr ?rows"
    by (rule get_students_by_id_range_rows [OF assms])
  have s: "set ?rows = {s \<in> set (students d). ?P s}" by auto
  have l: "length ?rows = length (filter ?P (students d))" by simp
  have o: "sorted (map s_student_id ?rows)" by (rule sorted_sort_key)
  have n: "sorted (map (\<lambda>s. dec_value (s_student_id s)) ?rows)"
    if w: "\<forall>s \<in> set (students d). length (s_student_id s) = w"
  proof -
    from o have "sorted_wrt (\<lambda>a b. s_student_id a \<le> s_student_id b) ?rows"
      by (simp only: sorted_map)
    moreover have "dec_value (s_student_id a) \<le> dec_value (s_student_id b)"
      if "a \<in> set ?rows" "b \<in> set ?rows" "s_student_id a \<le> s_student_id b" for a b
    proof -
      from that(1,2) have m: "a \<in> set (students d)" "b \<in> set (students d)" by auto
      with w have "length (s_student_id a) = length (s_student_id b)" by simp
      moreover from m assms(1) have "list_all is_digit (s_student_id a)"
        "list_all is_digit (s_student_id b)"
        by (simp_all add: numeric_id_def)
      ultimately show ?thesis using that(3) by (rule same_width_order)
    qed
    ultimately have "sorted_wrt (\<lambda>a b. dec_value (s_student_id a) \<le> dec_value (s_student_id b))
        ?rows"
      by (rule sorted_wrt_mono_rel [rotated])
    then show ?thesis by (simp only: sorted_map)
  qed
  from r s l o n show ?thesis by blast
qed

lemma numeric_ids_example:
  "\<forall>s \<in> set (students db_example). numeric_id (s_student_id s)"
  by (simp add: db_example_def numeric_id_def is_digit_def)

theorem get_students_by_id_range_exact_witness:
  "list_all (\<lambda>s. numeric_id (s_student_id s)) (students db_example) \<and>
   numeric_id ''202302'' \<and> numeric_id ''202305'' \<and>
   list_all (\<lambda>s. length (s_student_id s) = 6) (students db_example) \<and>
   (\<exists>rows. get_students_by_id_range ''202302'' ''202305'' db_example = Inr rows \<and>
      set rows = {s \<in> set (students db_example).
        dec_value ''202302'' \<le> dec_value (s_student_id s) \<and>
        dec_value (s_student_id s) \<le> dec_value ''202305''} \<and>
      sorted (map s_student_id rows) \<and>
      sorted (map (\<lambda>s. dec_value (s_student_id s)) rows))"
proof -
  have a: "numeric_id ''202302''" "numeric_id ''202305''"
    by (simp_all add: numeric_id_def is_digit_def)
  have w: "\<forall>s \<in> set (students db_example). length (s_student_id s) = 6"
    by (simp add: db_example_def)
  from get_students_by_id_range_exact [OF numeric_ids_example a, of 6] w
  have e: "\<exists>rows. get_students_by_id_range ''202302'' ''202305'' db_example = Inr rows \<and>
      set rows = {s \<in> set (students db_example).
        dec_value ''202302'' \<le> dec_value (s_student_id s) \<and>
        dec_value (s_student_id s) \<le> dec_value ''202305''} \<and>
      sorted (map s_student_id rows) \<and>
      sorted (map (\<lambda>s. dec_value (s_student_id s)) rows)"
    by blast
  have "list_all (\<lambda>s. numeric_id (s_student_id s)) (students db_example)"
    using numeric_ids_example by (simp only: list_all_iff)
  moreover have "list_all (\<lambda>s. length (s_student_id s) = 6) (students db_example)"
    using w by (simp only: list_all_iff)
  ultimately show ?thesis using a e by blast
qed

subsection \<open>The dispatcher\<close>

lemma execute_tool_raises:
  "execute_tool E tool_call d = Inl e \<longleftrightarrow> env_loads E (tc_arguments tool_call) = Inl e"
  by (auto simp: execute_tool_def Let_def split: sum.splits prod.splits)

lemma execute_tool_returns:
  "env_loads E (tc_arguments tool_call) = Inr args \<Longrightarrow>
     \<exists>result d'. execute_tool E tool_call d = Inr (result, d')"
  by (auto simp: execute_tool_def Let_def split: sum.splits prod.splits)

text \<open>
  Claim C2 holds of the body of the dispatcher and fails of the dispatcher: whatever the
  \<^verbatim>\<open>try\<close> block raises comes back as an error string, an unknown name too, but the
  arguments are parsed before the \<^verbatim>\<open>try\<close>. A call of \<^verbatim>\<open>get_all_classes\<close> whose
  argument string is empty raises \<^verbatim>\<open>JSONDecodeError\<close> to the caller, and so does a call
  of an unknown tool with that argument string.
\<close>

theorem execute_tool_unparseable_arguments:
  "execute_tool env_example
     \<lparr>tc_index = 0, tc_id = ''call_1'', tc_name = ''get_all_classes'', tc_arguments = ''''\<rparr>
     db_example = Inl JSONDecodeError \<and>
   execute_tool env_example
     \<lparr>tc_index = 0, tc_id = ''call_2'', tc_name = ''no_such_tool'', tc_arguments = ''''\<rparr>
     db_example = Inl JSONDecodeError \<and>
   execute_tool env_example
     \<lparr>tc_index = 0, tc_id = ''call_3'', tc_name = ''no_such_tool'', tc_arguments = ''{}''\<rparr>
     db_example = Inr (UnknownTool ''no_such_tool'', db_example) \<and>
   execute_tool env_example
     \<lparr>tc_index = 0, tc_id = ''call_4'', tc_name = ''get_student_info'', tc_arguments = ''{}''\<rparr>
     db_example = Inr (ToolError (Some ''get_student_info'') (KeyError ''student_id''), db_example)"
  by (simp add: execute_tool_def try_body_def env_example_def loads_sample_def Let_def
      text_arg_def bind_exc_def getitem_def fault_def)

subsection \<open>The threads of the session\<close>

lemma run_append: "run E (xs @ ys) s = run E ys (run E xs s)"
  by (induction xs arbitrary: s) simp_all

lemma run_snoc: "run E (xs @ [a]) s = step E a (run E xs s)"
  by (simp add: run_append)

lemma thread_step_ended: "thread_step E m (Ended out) s = (Ended out, s)"
  by (cases m) simp_all

lemma request_inv_mono: "request_inv p ms k \<Longrightarrow> k \<le> k' \<Longrightarrow> request_inv p ms k'"
proof (induction p ms k rule: request_inv.induct)
  case (5 tool_calls_list tool_messages rest ms k)
  then obtain rounds r where
    "ms = concat (map round_turns rounds) @ [AssistantCalls tool_calls_list]"
    "[] \<notin> set rounds" "length rounds < k" "tool_calls_list \<noteq> []"
    "tool_calls_list = map fst r @ rest"
    "tool_messages = map (\<lambda>x. ToolTurn (tc_id (fst x)) (snd x)) r"
    by auto
  with 5(2) have "ms = concat (map round_turns rounds) @ [AssistantCalls tool_calls_list] \<and>
    [] \<notin> set rounds \<and> length rounds < k' \<and> tool_calls_list \<noteq> [] \<and>
    tool_calls_list = map fst r @ rest \<and>
    tool_messages = map (\<lambda>x. ToolTurn (tc_id (fst x)) (snd x)) r"
    by simp
  then show ?case
    unfolding request_inv.simps by blast
qed (auto intro: less_le_trans order_trans)

lemma request_inv_Calling_Nil: "request_inv Calling [] k"
  unfolding request_inv.simps whole_rounds_def
  by (intro exI [of _ "[]"]) simp

text \<open>A move of the thread of a request keeps what the history holds behind its user turn.\<close>

lemma thread_step_Create_other:
  "p \<noteq> Calling \<Longrightarrow> thread_step E (Create r) p s = (p, s)"
  by (cases p) simp_all

lemma thread_step_inv:
  assumes "thread_step E m p s = (p', s')"
    and "messages (s_chat s) = base @ ms" and "request_inv p ms k"
  shows "\<exists>ms'. messages (s_chat s') = base @ ms' \<and>
     request_inv p' ms' (case m of Create _ \<Rightarrow> Suc k | _ \<Rightarrow> k)"
proof (cases m)
  case (Import ok)
  show ?thesis
  proof (cases p)
    case Started
    with assms Import request_inv_Calling_Nil [of k] show ?thesis
      by (cases ok) (auto simp: emit_finish_def simp del: request_inv.simps(2))
  qed (use assms Import in auto)
next
  case (Create r)
  show ?thesis
  proof (cases "p = Calling")
    case True
    with assms(3) obtain rounds where r: "whole_rounds ms rounds" "length rounds \<le> k"
      by auto
    then have "request_inv (Streaming [] []) ms (Suc k)"
      unfolding request_inv.simps by (intro exI [of _ rounds]) simp
    with assms(1,2) True Create show ?thesis
      by (cases r) auto
  next
    case False
    with assms(1,2) Create have "p' = p" "messages (s_chat s') = base @ ms"
      by (simp_all add: thread_step_Create_other)
    with request_inv_mono [OF assms(3), of "Suc k"] Create show ?thesis by auto
  qed
next
  case (Next x)
  show ?thesis
  proof (cases p)
    case (Streaming f t)
    with assms Next show ?thesis
      by (cases x) (auto split: if_splits prod.splits)
  qed (use assms Next in auto)
next
  case Exhausted
  show ?thesis
    by (cases p) (use assms Exhausted in auto)
next
  case Run
  show ?thesis
  proof (cases p)
    case (AfterLoop f t)
    from assms(3) AfterLoop obtain rounds where
      r: "whole_rounds ms rounds" "length rounds < k" by auto
    show ?thesis
    proof (cases "cancelled (s_chat s)")
      case True
      with assms AfterLoop Run show ?thesis
        by (auto simp: emit_finish_def)
    next
      case False
      show ?thesis
      proof (cases "t = []")
        case True
        with assms AfterLoop Run False show ?thesis
          by (auto simp: emit_finish_def append_messages_def)
      next
        case nonempty: False
        with assms AfterLoop Run False have
          p': "p' = Executing t [] t" and
          m': "messages (s_chat s') = base @ (ms @ [AssistantCalls t])"
          by (auto simp: append_messages_def)
        from r nonempty have "request_inv (Executing t [] t) (ms @ [AssistantCalls t]) k"
          unfolding request_inv.simps whole_rounds_def
          by (intro exI [of _ rounds] exI [of _ "[]"]) simp
        with p' m' Run show ?thesis by auto
      qed
    qed
  next
    case (Executing all msgs rest)
    from assms(3) Executing obtain rounds r where
      i: "ms = concat (map round_turns rounds) @ [AssistantCalls all]"
         "[] \<notin> set rounds" "length rounds < k" "all \<noteq> []"
         "all = map fst r @ rest"
         "msgs = map (\<lambda>x. ToolTurn (tc_id (fst x)) (snd x)) r"
      by auto
    show ?thesis
    proof (cases rest)
      case Nil
      with assms Executing Run have
        p': "p' = Calling" and m': "messages (s_chat s') = base @ (ms @ msgs)"
        by (auto simp: append_messages_def)
      from i Nil have "r \<noteq> []" by auto
      moreover from i Nil have "ms @ msgs = concat (map round_turns (rounds @ [r]))"
        by (simp add: round_turns_def)
      ultimately have "whole_rounds (ms @ msgs) (rounds @ [r])"
        using i(2) by (simp add: whole_rounds_def)
      moreover have "length (rounds @ [r]) \<le> k" using i(3) by simp
      ultimately have "request_inv Calling (ms @ msgs) k"
        unfolding request_inv.simps by blast
      with p' m' Run show ?thesis by auto
    next
      case (Cons tc rest')
      show ?thesis
      proof (cases "execute_tool E tc (s_db s)")
        case (Inl e)
        with assms Executing Run Cons show ?thesis by auto
      next
        case (Inr x)
        obtain result d' where x: "x = (result, d')" by (cases x) auto
        with assms Executing Run Cons Inr have
          p': "p' = Executing all (msgs @ [ToolTurn (tc_id tc) result]) rest'" and
          m': "messages (s_chat s') = base @ ms"
          by auto
        from i Cons have "all = map fst (r @ [(tc, result)]) @ rest'"
          "msgs @ [ToolTurn (tc_id tc) result] =
             map (\<lambda>x. ToolTurn (tc_id (fst x)) (snd x)) (r @ [(tc, result)])"
          by simp_all
        with i have
          "request_inv (Executing all (msgs @ [ToolTurn (tc_id tc) result]) rest') ms k"
          unfolding request_inv.simps
          by (intro exI [of _ rounds] exI [of _ "r @ [(tc, result)]"]) simp
        with p' m' Run show ?thesis by auto
      qed
    qed
  next
    case (Ended out)
    with assms Run show ?thesis by (auto simp: thread_step_ended)
  qed (use assms Run in auto)
qed

lemma thread_step_threads:
  "thread_step E m p s = (p', s') \<Longrightarrow> s_threads s' = s_threads s"
  by (induction E m p s rule: thread_step.induct)
    (auto simp: emit_finish_def append_messages_def split: if_splits option.splits sum.splits
      prod.splits)

lemma thread_step_in_round:
  assumes "thread_step E m p s = (p', s')" and "in_round p'" and "p' \<noteq> Calling"
  shows "in_round p \<and> messages (s_chat s') = messages (s_chat s) \<and> s_db s' = s_db s"
  using assms
  by (induction E m p s rule: thread_step.induct)
    (auto simp: emit_finish_def append_messages_def split: if_splits option.splits sum.splits
      prod.splits)

text \<open>
  An action that is not a \<^verbatim>\<open>send_message\<close>, in a session whose last thread \<open>n\<close>
  serves the request and whose other threads have ended.
\<close>

lemma step_request_inv:
  assumes len: "length (s_threads s) = Suc n"
    and old: "list_all is_ended (take n (s_threads s))"
    and msg: "messages (s_chat s) = base @ ms"
    and inv: "request_inv (s_threads s ! n) ms k"
    and a: "\<not> is_send a"
  shows "length (s_threads (step E a s)) = Suc n \<and>
     take n (s_threads (step E a s)) = take n (s_threads s) \<and>
     (\<exists>ms'. messages (s_chat (step E a s)) = base @ ms' \<and>
        request_inv (s_threads (step E a s) ! n) ms' (if is_create n a then Suc k else k))"
proof (cases a)
  case (Send_message x y)
  with a show ?thesis by simp
next
  case Cancel_generation
  with len msg inv show ?thesis
    by (auto simp: step_def cancel_generation_def)
next
  case Finish_message_ui
  with len msg inv show ?thesis
    by (auto simp: step_def finish_message_ui_def)
next
  case (Thread i m)
  consider "i < n" | "i = n" | "n < i" by linarith
  then show ?thesis
  proof cases
    case 1
    with old len have "is_ended (s_threads s ! i)"
      by (simp add: list_all_length)
    then obtain out where e: "s_threads s ! i = Ended out"
      by (cases "s_threads s ! i") auto
    have "(s_threads s)[i := Ended out] = s_threads s"
      using e by (metis list_update_id)
    with 1 len have "step E a s = s"
      by (simp add: step_def Thread e thread_step_ended)
    moreover from 1 Thread have "\<not> is_create n a" by (cases m) auto
    ultimately show ?thesis using len msg inv by auto
  next
    case 2
    obtain p' s' where t: "thread_step E m (s_threads s ! n) s = (p', s')"
      by (cases "thread_step E m (s_threads s ! n) s") auto
    from thread_step_threads [OF t] have th: "s_threads s' = s_threads s" .
    from thread_step_inv [OF t msg inv] obtain ms' where
      m': "messages (s_chat s') = base @ ms'"
      "request_inv p' ms' (case m of Create _ \<Rightarrow> Suc k | _ \<Rightarrow> k)" by blast
    have st: "step E a s = s'\<lparr>s_threads := (s_threads s)[n := p']\<rparr>"
      using 2 len t th by (simp add: step_def Thread)
    have "(case m of Create _ \<Rightarrow> Suc k | _ \<Rightarrow> k) = (if is_create n a then Suc k else k)"
      using 2 Thread by (cases m) auto
    with m' st len show ?thesis by simp
  next
    case 3
    with len have "step E a s = s" by (simp add: step_def Thread)
    moreover from 3 Thread have "\<not> is_create n a" by (cases m) auto
    ultimately show ?thesis using len msg inv by auto
  qed
qed

lemma step_in_round:
  assumes len: "length (s_threads s) = Suc n"
    and old: "list_all is_ended (take n (s_threads s))"
    and a: "\<not> is_send a"
    and r: "in_round (s_threads (step E a s) ! n)"
    and c: "s_threads (step E a s) ! n \<noteq> Calling"
  shows "in_round (s_threads s ! n) \<and>
     messages (s_chat (step E a s)) = messages (s_chat s) \<and> s_db (step E a s) = s_db s"
proof (cases a)
  case (Send_message x y)
  with a show ?thesis by simp
next
  case Cancel_generation
  with r show ?thesis
    by (auto simp: step_def cancel_generation_def)
next
  case Finish_message_ui
  with r show ?thesis
    by (auto simp: step_def finish_message_ui_def split: if_splits)
next
  case (Thread i m)
  consider "i < n" | "i = n" | "n < i" by linarith
  then show ?thesis
  proof cases
    case 1
    with old len have "is_ended (s_threads s ! i)"
      by (simp add: list_all_length)
    then obtain out where e: "s_threads s ! i = Ended out"
      by (cases "s_threads s ! i") auto
    have "(s_threads s)[i := Ended out] = s_threads s"
      using e by (metis list_update_id)
    with 1 len have "step E a s = s"
      by (simp add: step_def Thread e thread_step_ended)
    with r show ?thesis by simp
  next
    case 2
    obtain p' s' where t: "thread_step E m (s_threads s ! n) s = (p', s')"
      by (cases "thread_step E m (s_threads s ! n) s") auto
    from thread_step_threads [OF t] have th: "s_threads s' = s_threads s" .
    have st: "step E a s = s'\<lparr>s_threads := (s_threads s)[n := p']\<rparr>"
      using 2 len t th by (simp add: step_def Thread)
    with len r c have "in_round p'" "p' \<noteq> Calling" by simp_all
    from thread_step_in_round [OF t this] st show ?thesis by simp
  next
    case 3
    with len have "step E a s = s" by (simp add: step_def Thread)
    with r show ?thesis by simp
  qed
qed

text \<open>
  The session after a request was sent into a session at rest and a schedule without a
  further \<^verbatim>\<open>send_message\<close> has run.
\<close>

lemma run_request_inv:
  assumes quiet: "list_all is_ended (s_threads s0)" and key: "api_key \<noteq> []"
    and nosend: "list_all (\<lambda>a. \<not> is_send a) acts"
    and s: "s = run E acts (step E (Send_message api_key user_input) s0)"
    and n: "n = length (s_threads s0)"
  shows "length (s_threads s) = Suc n \<and> take n (s_threads s) = s_threads s0 \<and>
     (\<exists>ms. messages (s_chat s) = (messages (s_chat s0) @ [UserTurn user_input]) @ ms \<and>
        request_inv (s_threads s ! n) ms (length (filter (is_create n) acts)))"
  using nosend s
proof (induction acts arbitrary: s rule: rev_induct)
  case Nil
  with key n show ?case
    by (simp add: step_def send_message_def)
next
  case (snoc a acts)
  let ?s = "run E acts (step E (Send_message api_key user_input) s0)"
  from snoc.prems have na: "\<not> is_send a" and nl: "list_all (\<lambda>a. \<not> is_send a) acts"
    by simp_all
  from snoc.IH [OF nl refl] obtain ms where
    len: "length (s_threads ?s) = Suc n" and tk: "take n (s_threads ?s) = s_threads s0" and
    msg: "messages (s_chat ?s) = (messages (s_chat s0) @ [UserTurn user_input]) @ ms" and
    inv: "request_inv (s_threads ?s ! n) ms (length (filter (is_create n) acts))"
    by blast
  from quiet tk have old: "list_all is_ended (take n (s_threads ?s))" by simp
  have s': "s = step E a ?s"
    using snoc.prems(2) by (simp add: run_snoc)
  from step_request_inv [OF len old msg inv na, of E] obtain ms' where
    l': "length (s_threads (step E a ?s)) = Suc n" and
    t': "take n (s_threads (step E a ?s)) = take n (s_threads ?s)" and
    m': "messages (s_chat (step E a ?s)) = (messages (s_chat s0) @ [UserTurn user_input]) @ ms'" and
    i': "request_inv (s_threads (step E a ?s) ! n) ms'
           (if is_create n a then Suc (length (filter (is_create n) acts))
            else length (filter (is_create n) acts))"
    by blast
  have "(if is_create n a then Suc (length (filter (is_create n) acts))
         else length (filter (is_create n) acts)) = length (filter (is_create n) (acts @ [a]))"
    by simp
  with i' have i'': "request_inv (s_threads (step E a ?s) ! n) ms'
      (length (filter (is_create n) (acts @ [a])))"
    by (simp only:)
  from t' tk have t'': "take n (s_threads (step E a ?s)) = s_threads s0"
    by simp
  show ?case
    unfolding s' using l' t'' m' i'' by (intro conjI exI [of _ ms'])
qed

lemma run_last_round:
  assumes quiet: "list_all is_ended (s_threads s0)" and key: "api_key \<noteq> []"
    and nosend: "list_all (\<lambda>a. \<not> is_send a) acts"
    and s1: "s1 = step E (Send_message api_key user_input) s0"
    and n: "n = length (s_threads s0)"
    and r: "in_round (s_threads (run E acts s1) ! n)"
  shows "\<exists>pre post. acts = pre @ post \<and> s_threads (run E pre s1) ! n = Calling \<and>
     (\<forall>k \<le> length post.
        messages (s_chat (run E (pre @ take k post) s1)) = messages (s_chat (run E acts s1)) \<and>
        s_db (run E (pre @ take k post) s1) = s_db (run E acts s1) \<and>
        (0 < k \<longrightarrow> s_threads (run E (pre @ take k post) s1) ! n \<noteq> Calling))"
  using nosend r
proof (induction acts rule: rev_induct)
  case Nil
  with key n s1 show ?case
    by (simp add: step_def send_message_def)
next
  case (snoc a acts)
  from snoc.prems have na: "\<not> is_send a" and nl: "list_all (\<lambda>a. \<not> is_send a) acts"
    by simp_all
  show ?case
  proof (cases "s_threads (run E (acts @ [a]) s1) ! n = Calling")
    case True
    then show ?thesis
      by (intro exI [of _ "acts @ [a]"] exI [of _ "[]"]) simp
  next
    case False
    from run_request_inv [OF quiet key nl _ n, of "run E acts s1" E user_input] s1
    have len: "length (s_threads (run E acts s1)) = Suc n"
      and tk: "take n (s_threads (run E acts s1)) = s_threads s0"
      by simp_all
    from quiet tk have old: "list_all is_ended (take n (s_threads (run E acts s1)))" by simp
    from snoc.prems(2) False have
      "in_round (s_threads (step E a (run E acts s1)) ! n)"
      "s_threads (step E a (run E acts s1)) ! n \<noteq> Calling"
      by (simp_all add: run_snoc)
    from step_in_round [OF len old na this] have
      b: "in_round (s_threads (run E acts s1) ! n)"
         "messages (s_chat (run E (acts @ [a]) s1)) = messages (s_chat (run E acts s1))"
         "s_db (run E (acts @ [a]) s1) = s_db (run E acts s1)"
      by (simp_all add: run_snoc)
    from snoc.IH [OF nl b(1)] obtain pre post where
      sp: "acts = pre @ post" and ca: "s_threads (run E pre s1) ! n = Calling" and
      al: "\<forall>k \<le> length post.
        messages (s_chat (run E (pre @ take k post) s1)) = messages (s_chat (run E acts s1)) \<and>
        s_db (run E (pre @ take k post) s1) = s_db (run E acts s1) \<and>
        (0 < k \<longrightarrow> s_threads (run E (pre @ take k post) s1) ! n \<noteq> Calling)"
      by blast
    have "messages (s_chat (run E (pre @ take k (post @ [a])) s1)) =
            messages (s_chat (run E (acts @ [a]) s1)) \<and>
          s_db (run E (pre @ take k (post @ [a])) s1) = s_db (run E (acts @ [a]) s1) \<and>
          (0 < k \<longrightarrow> s_threads (run E (pre @ take k (post @ [a])) s1) ! n \<noteq> Calling)"
      if "k \<le> length (post @ [a])" for k
    proof (cases "k \<le> length post")
      case True
      then have "take k (post @ [a]) = take k post" by simp
      with al True b(2,3) show ?thesis by simp
    next
      case over: False
      with that have "take k (post @ [a]) = post @ [a]" by simp
      then have "pre @ take k (post @ [a]) = acts @ [a]" using sp by simp
      with False show ?thesis by simp
    qed
    with sp ca show ?thesis
      by (intro exI [of _ pre] exI [of _ "post @ [a]"]) simp
  qed
qed

text \<open>A request that nothing disturbs runs to its answer.\<close>

lemma apply_chunk_no_tool_calls:
  "no_tool_calls ch \<Longrightarrow> snd (apply_chunk ch (f, [])) = []"
  by (auto simp: no_tool_calls_def apply_chunk_def split: option.splits)

lemma foldl_apply_chunk_no_tool_calls:
  "list_all no_tool_calls chunks \<Longrightarrow>
     snd (foldl (\<lambda>acc ch. apply_chunk ch acc) (f, []) chunks) = []"
proof (induction chunks arbitrary: f)
  case Nil
  then show ?case by simp
next
  case (Cons ch chunks)
  from Cons.prems have "snd (apply_chunk ch (f, [])) = []"
    by (simp add: apply_chunk_no_tool_calls)
  then have "apply_chunk ch (f, []) = (fst (apply_chunk ch (f, [])), [])"
    by (metis prod.collapse)
  with Cons.IH [of "fst (apply_chunk ch (f, []))"] Cons.prems show ?case
    by simp
qed

lemma stream_chunks:
  assumes "n < length (s_threads s)" and "s_threads s ! n = Streaming f []"
    and "\<not> cancelled (s_chat s)" and "list_all no_tool_calls chunks"
  shows "run E (map (\<lambda>ch. Thread n (Next (Inr ch))) chunks) s =
     s\<lparr>s_threads := (s_threads s)
        [n := Streaming (fst (foldl (\<lambda>acc ch. apply_chunk ch acc) (f, []) chunks)) []]\<rparr>"
  using assms
proof (induction chunks arbitrary: s f)
  case Nil
  then have "(s_threads s)[n := Streaming f []] = s_threads s"
    by (metis list_update_id)
  then show ?case by simp
next
  case (Cons ch chunks)
  from Cons.prems have "snd (apply_chunk ch (f, [])) = []"
    by (simp add: apply_chunk_no_tool_calls)
  then obtain f' where a: "apply_chunk ch (f, []) = (f', [])"
    by (metis prod.collapse)
  let ?s = "s\<lparr>s_threads := (s_threads s)[n := Streaming f' []]\<rparr>"
  from Cons.prems a have st: "step E (Thread n (Next (Inr ch))) s = ?s"
    by (simp add: step_def)
  from Cons.prems have "n < length (s_threads ?s)" "s_threads ?s ! n = Streaming f' []"
    "\<not> cancelled (s_chat ?s)" "list_all no_tool_calls chunks"
    by simp_all
  from Cons.IH [OF this] st a show ?case
    by simp
qed

lemma fresh_request:
  assumes key: "api_key \<noteq> []" and chunks: "list_all no_tool_calls chunks"
    and n: "n = length (s_threads s)"
  shows "s_threads (run E (Send_message api_key user_input # answer_schedule n chunks) s) ! n =
       Ended Completed \<and>
     messages (s_chat (run E (Send_message api_key user_input # answer_schedule n chunks) s)) =
       messages (s_chat s) @ [UserTurn user_input, AssistantTurn (content_of chunks)]"
proof -
  let ?c = "(s_chat s)\<lparr>messages := messages (s_chat s) @ [UserTurn user_input],
      is_generating := True, cancelled := False, input_enabled := False\<rparr>"
  let ?s3 = "s\<lparr>s_chat := ?c, s_threads := s_threads s @ [Streaming [] []]\<rparr>"
  have s3: "run E [Send_message api_key user_input, Thread n (Import True),
      Thread n (Create None)] s = ?s3"
    using key n by (simp add: step_def send_message_def)
  have "n < length (s_threads ?s3)" "s_threads ?s3 ! n = Streaming [] []"
    "\<not> cancelled (s_chat ?s3)"
    using n by simp_all
  from stream_chunks [OF this chunks, of E]
  have s4: "run E (map (\<lambda>ch. Thread n (Next (Inr ch))) chunks) ?s3 =
      s\<lparr>s_chat := ?c, s_threads := s_threads s @ [Streaming (content_of chunks) []]\<rparr>"
    using n by (simp add: content_of_def)
  have "run E (Send_message api_key user_input # answer_schedule n chunks) s =
      run E [Thread n Exhausted, Thread n Run]
        (run E (map (\<lambda>ch. Thread n (Next (Inr ch))) chunks)
          (run E [Send_message api_key user_input, Thread n (Import True),
             Thread n (Create None)] s))"
    by (simp add: answer_schedule_def run_append)
  also have "\<dots> = run E [Thread n Exhausted, Thread n Run]
      (s\<lparr>s_chat := ?c, s_threads := s_threads s @ [Streaming (content_of chunks) []]\<rparr>)"
    by (simp only: s3 s4)
  finally show ?thesis
    using n by (simp add: step_def emit_finish_def append_messages_def)
qed

text \<open>
  Claim C3, as stated, fails: the history is empty before \<^verbatim>\<open>send_message\<close>, the user
  cancels after the first fragment of the answer, the thread sees the cancellation at the
  next fragment and ends, and the history then has one turn, the user's.
\<close>

theorem cancelled_request_counterexample:
  "run env_example
     [Send_message ''sk-1'' ''hi'',
      Thread 0 (Import True), Thread 0 (Create None),
      Thread 0 (Next (Inr (Some \<lparr>dl_content = Some ''Hel'', dl_tool_calls = []\<rparr>))),
      Cancel_generation,
      Thread 0 (Next (Inr (Some \<lparr>dl_content = Some ''lo'', dl_tool_calls = []\<rparr>))),
      Thread 0 Run]
     session_idle =
     \<lparr>s_chat = \<lparr>messages = [UserTurn ''hi''], is_generating = False, cancelled = True,
                input_enabled = True\<rparr>,
      s_db = db_example, s_threads = [Ended Cancelled], s_signals = 1\<rparr> \<and>
   length (messages (s_chat session_idle)) = 0 \<and> length [UserTurn ''hi''] = 1"
  by (simp add: step_def send_message_def session_idle_def chat_idle_def
      cancel_generation_def apply_chunk_def emit_finish_def)

text \<open>
  The schedule that the amended claim leaves out. \<^verbatim>\<open>cancel_generation\<close> enables the
  input and waits one second at most; a message sent before the thread has looked at
  \<^verbatim>\<open>self.cancelled\<close> sets it back, and the cancelled request runs to its end and
  commits its answer behind the new user turn.
\<close>

lemma cancel_then_send_schedule:
  "input_enabled (s_chat (run env_example
     [Send_message ''sk-1'' ''hi'',
      Thread 0 (Import True), Thread 0 (Create None),
      Thread 0 (Next (Inr (Some \<lparr>dl_content = Some ''Hel'', dl_tool_calls = []\<rparr>))),
      Cancel_generation]
     session_idle)) \<and>
   run env_example
     [Send_message ''sk-1'' ''hi'',
      Thread 0 (Import True), Thread 0 (Create None),
      Thread 0 (Next (Inr (Some \<lparr>dl_content = Some ''Hel'', dl_tool_calls = []\<rparr>))),
      Cancel_generation,
      Send_message ''sk-1'' ''again'',
      Thread 0 (Next (Inr (Some \<lparr>dl_content = Some ''lo'', dl_tool_calls = []\<rparr>))),
      Thread 0 Exhausted, Thread 0 Run]
     session_idle =
     \<lparr>s_chat = \<lparr>messages = [UserTurn ''hi'', UserTurn ''again'', AssistantTurn ''Hello''],
                is_generating = True, cancelled = False, input_enabled = False\<rparr>,
      s_db = db_example, s_threads = [Ended Completed, Started], s_signals = 1\<rparr>"
  by (simp add: step_def send_message_def session_idle_def chat_idle_def
      cancel_generation_def apply_chunk_def emit_finish_def append_messages_def)

text \<open>
  Claim C3, amended. A request is sent while no thread is alive, and no further
  \<^verbatim>\<open>send_message\<close> runs before its thread has seen the cancellation and ended
  (\<^verbatim>\<open>cancel_generation\<close> waits for that for one second only; what a message sent
  earlier does is left open). Then, whatever the schedule of the cancellations, the
  signals and the moves of the thread:
  \<^item> the history is the history before \<^verbatim>\<open>send_message\<close>, the user turn, and the turns
    of complete rounds of tool calls, each an assistant turn with the calls followed by
    one tool turn for every call; there are fewer rounds than responses asked for, so the
    history is at least one turn longer than before, and exactly one where a single
    response was asked for;
  \<^item> the round in which the cancellation is seen commits nothing: from the moment the
    thread stood before \<^verbatim>\<open>create\<close> for the last time (after \<open>pre\<close>), the history
    and the database stay what they are at the end, so no assistant turn of that round,
    partial or whole, and no tool turn is in the history;
  \<^item> no thread is alive afterwards, and a further \<^verbatim>\<open>send_message\<close> proceeds normally:
    on a response without tool calls that nothing disturbs, its thread ends with the
    answer, and the history gains the new user turn and the assistant turn of the answer.
\<close>

theorem cancelled_request_history:
  assumes "list_all is_ended (s_threads s0)" and "api_key \<noteq> []"
    and "list_all (\<lambda>a. \<not> is_send a) acts"
    and "n = length (s_threads s0)"
    and "s1 = step E (Send_message api_key user_input) s0"
    and "s2 = run E acts s1"
    and "s_threads s2 ! n = Ended Cancelled"
  shows "(\<exists>rounds.
        messages (s_chat s2) =
          messages (s_chat s0) @ [UserTurn user_input] @ concat (map round_turns rounds) \<and>
        [] \<notin> set rounds \<and> length rounds < length (filter (is_create n) acts)) \<and>
     length (messages (s_chat s0)) + 1 \<le> length (messages (s_chat s2)) \<and>
     (length (filter (is_create n) acts) \<le> 1 \<longrightarrow>
        messages (s_chat s2) = messages (s_chat s0) @ [UserTurn user_input]) \<and>
     (\<exists>pre post. acts = pre @ post \<and> s_threads (run E pre s1) ! n = Calling \<and>
        (\<forall>k \<le> length post.
           messages (s_chat (run E (pre @ take k post) s1)) = messages (s_chat s2) \<and>
           s_db (run E (pre @ take k post) s1) = s_db s2 \<and>
           (0 < k \<longrightarrow> s_threads (run E (pre @ take k post) s1) ! n \<noteq> Calling))) \<and>
     list_all is_ended (s_threads s2) \<and>
     (\<forall>next_input chunks. list_all no_tool_calls chunks \<longrightarrow>
        s_threads (run E (Send_message api_key next_input # answer_schedule (Suc n) chunks) s2)
          ! Suc n = Ended Completed \<and>
        messages (s_chat
            (run E (Send_message api_key next_input # answer_schedule (Suc n) chunks) s2)) =
          messages (s_chat s2) @ [UserTurn next_input, AssistantTurn (content_of chunks)])"
proof -
  have s2: "s2 = run E acts (step E (Send_message api_key user_input) s0)"
    using assms(5,6) by simp
  from run_request_inv [OF assms(1,2,3) s2 assms(4)] obtain ms where
    len: "length (s_threads s2) = Suc n" and tk: "take n (s_threads s2) = s_threads s0" and
    msg: "messages (s_chat s2) = (messages (s_chat s0) @ [UserTurn user_input]) @ ms" and
    inv: "request_inv (s_threads s2 ! n) ms (length (filter (is_create n) acts))"
    by blast
  from inv assms(7) obtain rounds where
    r: "ms = concat (map round_turns rounds)" "[] \<notin> set rounds"
       "length rounds < length (filter (is_create n) acts)"
    by (auto simp: whole_rounds_def)
  from msg r have a: "\<exists>rounds.
        messages (s_chat s2) =
          messages (s_chat s0) @ [UserTurn user_input] @ concat (map round_turns rounds) \<and>
        [] \<notin> set rounds \<and> length rounds < length (filter (is_create n) acts)"
    by auto
  from msg have b: "length (messages (s_chat s0)) + 1 \<le> length (messages (s_chat s2))"
    by simp
  have c: "messages (s_chat s2) = messages (s_chat s0) @ [UserTurn user_input]"
    if "length (filter (is_create n) acts) \<le> 1"
  proof -
    from that r(3) have "length rounds = 0" by linarith
    then have "rounds = []" by simp
    with msg r(1) show ?thesis by simp
  qed
  from assms(7) have "in_round (s_threads (run E acts s1) ! n)"
    by (simp add: assms(6))
  from run_last_round [OF assms(1,2,3,5,4) this] have d:
    "\<exists>pre post. acts = pre @ post \<and> s_threads (run E pre s1) ! n = Calling \<and>
        (\<forall>k \<le> length post.
           messages (s_chat (run E (pre @ take k post) s1)) = messages (s_chat s2) \<and>
           s_db (run E (pre @ take k post) s1) = s_db s2 \<and>
           (0 < k \<longrightarrow> s_threads (run E (pre @ take k post) s1) ! n \<noteq> Calling))"
    unfolding assms(6) .
  have e: "list_all is_ended (s_threads s2)"
    unfolding list_all_length
  proof (intro allI impI)
    fix i assume "i < length (s_threads s2)"
    with len consider "i < n" | "i = n" by linarith
    then show "is_ended (s_threads s2 ! i)"
    proof cases
      case 1
      then have "s_threads s2 ! i = take n (s_threads s2) ! i" by simp
      with tk assms(1,4) 1 show ?thesis
        by (simp add: list_all_length)
    next
      case 2
      with assms(7) show ?thesis by simp
    qed
  qed
  have f: "s_threads (run E (Send_message api_key next_input # answer_schedule (Suc n) chunks) s2)
          ! Suc n = Ended Completed \<and>
        messages (s_chat
            (run E (Send_message api_key next_input # answer_schedule (Suc n) chunks) s2)) =
          messages (s_chat s2) @ [UserTurn next_input, AssistantTurn (content_of chunks)]"
    if "list_all no_tool_calls chunks" for next_input chunks
    using fresh_request [OF assms(2) that, of "Suc n" s2 E next_input] len by simp
  from a b c d e f show ?thesis by blast
qed

lemma run_schedule_example:
  "run env_example schedule_example
     (step env_example (Send_message ''sk-1'' ''classes?'') session_idle) =
     \<lparr>s_chat =
        \<lparr>messages =
           [UserTurn ''classes?'',
            AssistantCalls [\<lparr>tc_index = 0, tc_id = ''call_1'', tc_name = ''get_all_classes'',
                             tc_arguments = ''{}''\<rparr>],
            ToolTurn ''call_1'' (ClassList [''2023''])],
         is_generating = False, cancelled = True, input_enabled = True\<rparr>,
      s_db = db_example, s_threads = [Ended Cancelled], s_signals = 1\<rparr>"
  by (simp add: schedule_example_def step_def send_message_def session_idle_def chat_idle_def
      cancel_generation_def apply_chunk_def merge_tool_call_def emit_finish_def
      append_messages_def execute_tool_def try_body_def env_example_def loads_sample_def
      get_all_classes_def db_example_def Let_def)

theorem cancelled_request_history_witness:
  "list_all is_ended (s_threads session_idle) \<and>
   list_all (\<lambda>a. \<not> is_send a) schedule_example \<and>
   s_threads (run env_example schedule_example
     (step env_example (Send_message ''sk-1'' ''classes?'') session_idle)) ! 0 =
     Ended Cancelled \<and>
   messages (s_chat (run env_example schedule_example
     (step env_example (Send_message ''sk-1'' ''classes?'') session_idle))) =
     [UserTurn ''classes?'',
      AssistantCalls [\<lparr>tc_index = 0, tc_id = ''call_1'', tc_name = ''get_all_classes'',
                       tc_arguments = ''{}''\<rparr>],
      ToolTurn ''call_1'' (ClassList [''2023''])] \<and>
   (\<exists>rounds.
      messages (s_chat (run env_example schedule_example
        (step env_example (Send_message ''sk-1'' ''classes?'') session_idle))) =
        messages (s_chat session_idle) @ [UserTurn ''classes?''] @
          concat (map round_turns rounds) \<and>
      [] \<notin> set rounds \<and> length rounds < 2) \<and>
   (\<exists>pre post. schedule_example = pre @ post \<and>
      s_threads (run env_example pre
        (step env_example (Send_message ''sk-1'' ''classes?'') session_idle)) ! 0 = Calling \<and>
      messages (s_chat (run env_example pre
        (step env_example (Send_message ''sk-1'' ''classes?'') session_idle))) =
        [UserTurn ''classes?'',
         AssistantCalls [\<lparr>tc_index = 0, tc_id = ''call_1'', tc_name = ''get_all_classes'',
                          tc_arguments = ''{}''\<rparr>],
         ToolTurn ''call_1'' (ClassList [''2023''])])"
proof -
  have q: "list_all is_ended (s_threads session_idle)"
    by (simp add: session_idle_def)
  have k: "''sk-1'' \<noteq> []" by simp
  have ns: "list_all (\<lambda>a. \<not> is_send a) schedule_example"
    by (simp add: schedule_example_def)
  have n: "0 = length (s_threads session_idle)"
    by (simp add: session_idle_def)
  have c: "s_threads (run env_example schedule_example
     (step env_example (Send_message ''sk-1'' ''classes?'') session_idle)) ! 0 =
     Ended Cancelled"
    by (simp add: run_schedule_example)
  have cr: "length (filter (is_create 0) schedule_example) = 2"
    by (simp add: schedule_example_def)
  have m: "messages (s_chat (run env_example schedule_example
     (step env_example (Send_message ''sk-1'' ''classes?'') session_idle))) =
     [UserTurn ''classes?'',
      AssistantCalls [\<lparr>tc_index = 0, tc_id = ''call_1'', tc_name = ''get_all_classes'',
                       tc_arguments = ''{}''\<rparr>],
      ToolTurn ''call_1'' (ClassList [''2023''])]"
    by (simp add: run_schedule_example)
  note t = cancelled_request_history [OF q k ns n refl refl c]
  from t have "\<exists>rounds.
      messages (s_chat (run env_example schedule_example
        (step env_example (Send_message ''sk-1'' ''classes?'') session_idle))) =
        messages (s_chat session_idle) @ [UserTurn ''classes?''] @
          concat (map round_turns rounds) \<and>
      [] \<notin> set rounds \<and> length rounds < length (filter (is_create 0) schedule_example)"
    by blast
  then have r: "\<exists>rounds.
      messages (s_chat (run env_example schedule_example
        (step env_example (Send_message ''sk-1'' ''classes?'') session_idle))) =
        messages (s_chat session_idle) @ [UserTurn ''classes?''] @
          concat (map round_turns rounds) \<and>
      [] \<notin> set rounds \<and> length rounds < 2"
    by (simp only: cr)
  from t obtain pre post where
    sp: "schedule_example = pre @ post" and
    ca: "s_threads (run env_example pre
        (step env_example (Send_message ''sk-1'' ''classes?'') session_idle)) ! 0 = Calling" and
    al: "\<forall>k \<le> length post.
      messages (s_chat (run env_example (pre @ take k post)
        (step env_example (Send_message ''sk-1'' ''classes?'') session_idle))) =
      messages (s_chat (run env_example schedule_example
        (step env_example (Send_message ''sk-1'' ''classes?'') session_idle)))"
    by blast
  from al have "messages (s_chat (run env_example (pre @ take 0 post)
        (step env_example (Send_message ''sk-1'' ''classes?'') session_idle))) =
      messages (s_chat (run env_example schedule_example
        (step env_example (Send_message ''sk-1'' ''classes?'') session_idle)))"
    by blast
  with sp ca have "\<exists>pre post. schedule_example = pre @ post \<and>
      s_threads (run env_example pre
        (step env_example (Send_message ''sk-1'' ''classes?'') session_idle)) ! 0 = Calling \<and>
      messages (s_chat (run env_example pre
        (step env_example (Send_message ''sk-1'' ''classes?'') session_idle))) =
      messages (s_chat (run env_example schedule_example
        (step env_example (Send_message ''sk-1'' ''classes?'') session_idle)))"
    by auto
  then have p: "\<exists>pre post. schedule_example = pre @ post \<and>
      s_threads (run env_example pre
        (step env_example (Send_message ''sk-1'' ''classes?'') session_idle)) ! 0 = Calling \<and>
      messages (s_chat (run env_example pre
        (step env_example (Send_message ''sk-1'' ''classes?'') session_idle))) =
        [UserTurn ''classes?'',
         AssistantCalls [\<lparr>tc_index = 0, tc_id = ''call_1'', tc_name = ''get_all_classes'',
                          tc_arguments = ''{}''\<rparr>],
         ToolTurn ''call_1'' (ClassList [''2023''])]"
    by (simp only: m)
  from q ns c m r p show ?thesis by blast
qed

end
